theory Spec2Isabelle
  imports Complex_Main
begin

section \<open>EZLang: lexer, parser, interpreter and runner\<close>

text \<open>
  The interpreter is the Python program that \<^verbatim>\<open>src/script.js\<close> loads into its Python
  runtime: \<^verbatim>\<open>lex\<close>, the class \<^verbatim>\<open>Parser\<close>, the class \<^verbatim>\<open>Interpreter\<close> and
  \<^verbatim>\<open>run_ezlang\<close>. The Python text sits in a JavaScript template literal, so every
  \<^verbatim>\<open>\\\<close> of the file is one backslash of the Python source.

  Conventions of the embedding:
  \<^item> a source text is a \<open>string\<close>, a list of 8-bit characters read as the code points
    0 to 255; on these \<^verbatim>\<open>\d\<close> is exactly the ten ASCII digits;
  \<^item> Python integers are \<open>int\<close>;
  \<^item> an exception is a value of \<open>py_error\<close>, carrying the text that \<^verbatim>\<open>str(e)\<close> gives;
  \<^item> limits of the host runtime (recursion depth, memory, the bound on the number of
    digits converted between integers and text) are not part of the model.
\<close>

subsection \<open>Characters\<close>

definition quote :: char where
  "quote = CHR 0x22"

definition apostrophe :: char where
  "apostrophe = CHR 0x27"

definition backslash :: char where
  "backslash = CHR 0x5C"

definition newline :: char where
  "newline = CHR 0x0A"

definition tab :: char where
  "tab = CHR 0x09"

definition carriage_return :: char where
  "carriage_return = CHR 0x0D"

definition is_digit :: "char \<Rightarrow> bool" where
  "is_digit c = (c \<in> set ''0123456789'')"

definition is_op_char :: "char \<Rightarrow> bool" where
  "is_op_char c = (c \<in> set ''+-*/'')"

definition is_ident_char :: "char \<Rightarrow> bool" where
  "is_ident_char c =
     (c \<in> set ''abcdefghijklmnopqrstuvwxyzABCDEFGHIJKLMNOPQRSTUVWXYZ_'')"

definition is_skip_char :: "char \<Rightarrow> bool" where
  "is_skip_char c = (c = CHR '' '' \<or> c = tab \<or> c = newline)"

subsection \<open>Regular expressions of \<^verbatim>\<open>token_specs\<close>\<close>

text \<open>
  Each pattern is a function from the text at the scan position to the matched text and
  the text after it, \<open>None\<close> when the pattern does not match there. Every pattern is one
  alternative of the joined expression and nothing follows it, so its greedy match is
  the match.
\<close>

type_synonym regex = "string \<Rightarrow> (string \<times> string) option"

text \<open>A character class repeated once or more, as in \<^verbatim>\<open>\d+\<close> and \<^verbatim>\<open>[a-zA-Z_]+\<close>.\<close>

definition re_plus :: "(char \<Rightarrow> bool) \<Rightarrow> regex" where
  "re_plus p s =
     (if takeWhile p s = [] then None else Some (takeWhile p s, dropWhile p s))"

text \<open>One character of a class, as in \<^verbatim>\<open>[+\-*/]\<close>.\<close>

definition re_one :: "(char \<Rightarrow> bool) \<Rightarrow> regex" where
  "re_one p s = (case s of [] \<Rightarrow> None | c # r \<Rightarrow> if p c then Some ([c], r) else None)"

text \<open>A literal text, as in \<^verbatim>\<open>print\<close>.\<close>

definition re_literal :: "string \<Rightarrow> regex" where
  "re_literal lit s =
     (if take (length lit) s = lit then Some (lit, drop (length lit) s) else None)"

text \<open>\<^verbatim>\<open>"[^"]*"\<close>: a quote, the characters up to the next quote, and that quote.\<close>

definition re_string :: regex where
  "re_string s =
     (case s of
        [] \<Rightarrow> None
      | c # r \<Rightarrow>
          if c = quote then
            (case dropWhile (\<lambda>d. d \<noteq> quote) r of
               [] \<Rightarrow> None
             | q # r' \<Rightarrow> Some (c # takeWhile (\<lambda>d. d \<noteq> quote) r @ [q], r'))
          else None)"

text \<open>\<^verbatim>\<open>[<>]=?|==\<close>: the first alternative is tried first.\<close>

definition re_compare :: regex where
  "re_compare s =
     (case s of
        [] \<Rightarrow> None
      | c # r \<Rightarrow>
          if c = CHR ''<'' \<or> c = CHR ''>'' then
            (case r of
               [] \<Rightarrow> Some ([c], r)
             | d # r' \<Rightarrow> if d = CHR ''='' then Some ([c, d], r') else Some ([c], r))
          else re_literal ''=='' s)"

subsection \<open>Tokens\<close>

datatype kind =
    K_NUMBER | K_STRING | K_PRINT | K_IF | K_LBRACE | K_RBRACE | K_ASSIGN | K_OP
  | K_COMPARE | K_LPAREN | K_RPAREN | K_IDENTIFIER | K_SKIP

text \<open>
  A token is the pair \<^verbatim>\<open>(kind, value)\<close> of the source. The value of a \<^verbatim>\<open>NUMBER\<close> is an
  integer, the value of every other token is the matched text (without the quotes for
  a \<^verbatim>\<open>STRING\<close>); for the kinds with a fixed spelling the value is that spelling and
  the constructor has no argument.
\<close>

datatype token =
    NUMBER int | STRING string | PRINT | IF | LBRACE | RBRACE | ASSIGN | OP string
  | COMPARE string | LPAREN | RPAREN | IDENTIFIER string

fun kind_of :: "token \<Rightarrow> kind" where
  "kind_of (NUMBER n) = K_NUMBER"
| "kind_of (STRING s) = K_STRING"
| "kind_of PRINT = K_PRINT"
| "kind_of IF = K_IF"
| "kind_of LBRACE = K_LBRACE"
| "kind_of RBRACE = K_RBRACE"
| "kind_of ASSIGN = K_ASSIGN"
| "kind_of (OP s) = K_OP"
| "kind_of (COMPARE s) = K_COMPARE"
| "kind_of LPAREN = K_LPAREN"
| "kind_of RPAREN = K_RPAREN"
| "kind_of (IDENTIFIER s) = K_IDENTIFIER"

fun kind_name :: "kind \<Rightarrow> string" where
  "kind_name K_NUMBER = ''NUMBER''"
| "kind_name K_STRING = ''STRING''"
| "kind_name K_PRINT = ''PRINT''"
| "kind_name K_IF = ''IF''"
| "kind_name K_LBRACE = ''LBRACE''"
| "kind_name K_RBRACE = ''RBRACE''"
| "kind_name K_ASSIGN = ''ASSIGN''"
| "kind_name K_OP = ''OP''"
| "kind_name K_COMPARE = ''COMPARE''"
| "kind_name K_LPAREN = ''LPAREN''"
| "kind_name K_RPAREN = ''RPAREN''"
| "kind_name K_IDENTIFIER = ''IDENTIFIER''"
| "kind_name K_SKIP = ''SKIP''"

subsection \<open>The lexer\<close>

definition token_specs :: "(kind \<times> regex) list" where
  "token_specs =
     [(K_NUMBER, re_plus is_digit),
      (K_STRING, re_string),
      (K_PRINT, re_literal ''print''),
      (K_IF, re_literal ''if''),
      (K_LBRACE, re_literal ''{''),
      (K_RBRACE, re_literal ''}''),
      (K_ASSIGN, re_literal ''=''),
      (K_OP, re_one is_op_char),
      (K_COMPARE, re_compare),
      (K_LPAREN, re_literal ''(''),
      (K_RPAREN, re_literal '')''),
      (K_IDENTIFIER, re_plus is_ident_char),
      (K_SKIP, re_plus is_skip_char)]"

text \<open>
  \<^verbatim>\<open>token_regex\<close> joins the named groups with \<^verbatim>\<open>|\<close>: at a position the first
  alternative of the list that matches gives the match and \<^verbatim>\<open>lastgroup\<close>.
\<close>

fun first_match :: "(kind \<times> regex) list \<Rightarrow> string \<Rightarrow> (kind \<times> string \<times> string) option" where
  "first_match [] s = None"
| "first_match ((k, re) # specs) s =
     (case re s of Some (v, r) \<Rightarrow> Some (k, v, r) | None \<Rightarrow> first_match specs s)"

definition token_regex :: "string \<Rightarrow> (kind \<times> string \<times> string) option" where
  "token_regex s = first_match token_specs s"

text \<open>\<^verbatim>\<open>int(value)\<close> on a text of decimal digits.\<close>

definition digit_value :: "char \<Rightarrow> int" where
  "digit_value c = int (of_char c) - 48"

definition int_of_digits :: "string \<Rightarrow> int" where
  "int_of_digits s = foldl (\<lambda>a c. 10 * a + digit_value c) 0 s"

text \<open>
  The body of the loop of \<^verbatim>\<open>lex\<close>: the token appended for a match, \<open>None\<close> for
  \<^verbatim>\<open>SKIP\<close> (the \<^verbatim>\<open>continue\<close>).
\<close>

fun make_token :: "kind \<Rightarrow> string \<Rightarrow> token option" where
  "make_token K_NUMBER v = Some (NUMBER (int_of_digits v))"
| "make_token K_STRING v = Some (STRING (butlast (tl v)))"
| "make_token K_SKIP v = None"
| "make_token K_PRINT v = Some PRINT"
| "make_token K_IF v = Some IF"
| "make_token K_LBRACE v = Some LBRACE"
| "make_token K_RBRACE v = Some RBRACE"
| "make_token K_ASSIGN v = Some ASSIGN"
| "make_token K_OP v = Some (OP v)"
| "make_token K_COMPARE v = Some (COMPARE v)"
| "make_token K_LPAREN v = Some LPAREN"
| "make_token K_RPAREN v = Some RPAREN"
| "make_token K_IDENTIFIER v = Some (IDENTIFIER v)"

lemma re_plus_shorter: "re_plus p s = Some (v, r) \<Longrightarrow> length r < length s"
proof -
  assume a: "re_plus p s = Some (v, r)"
  then have ne: "takeWhile p s \<noteq> []" and r: "r = dropWhile p s"
    by (auto simp: re_plus_def split: if_splits)
  have "length (takeWhile p s) + length (dropWhile p s) = length s"
    by (metis length_append takeWhile_dropWhile_id)
  with ne r show ?thesis by (cases "takeWhile p s") auto
qed

lemma re_one_shorter: "re_one p s = Some (v, r) \<Longrightarrow> length r < length s"
  by (auto simp: re_one_def split: list.splits if_splits)

lemma re_literal_shorter: "lit \<noteq> [] \<Longrightarrow> re_literal lit s = Some (v, r) \<Longrightarrow> length r < length s"
  by (cases s) (auto simp: re_literal_def split: if_splits)

lemma re_string_shorter: "re_string s = Some (v, r) \<Longrightarrow> length r < length s"
proof -
  assume a: "re_string s = Some (v, r)"
  then obtain c t q where s: "s = c # t" and d: "dropWhile (\<lambda>d. d \<noteq> quote) t = q # r"
    by (auto simp: re_string_def split: list.splits if_splits)
  have "length (dropWhile (\<lambda>d. d \<noteq> quote) t) \<le> length t"
    by (rule length_dropWhile_le)
  with s d show ?thesis by simp
qed

lemma re_compare_shorter: "re_compare s = Some (v, r) \<Longrightarrow> length r < length s"
  by (auto simp: re_compare_def split: list.splits if_splits dest: re_literal_shorter [rotated])

lemma token_regex_shorter: "token_regex s = Some (k, v, r) \<Longrightarrow> length r < length s"
  unfolding token_regex_def token_specs_def
  by (auto split: option.splits
      dest: re_plus_shorter re_one_shorter re_string_shorter re_compare_shorter
        re_literal_shorter [rotated])

text \<open>
  \<^verbatim>\<open>re.finditer\<close> scans the text from left to right: where the expression matches it
  yields the match and goes on after it, where it does not match it goes on at the next
  character. No pattern matches the empty text, so the scan ends at the end of the text.
\<close>

function lex :: "string \<Rightarrow> token list" where
  "lex [] = []"
| "lex (c # cs) =
     (case token_regex (c # cs) of
        None \<Rightarrow> lex cs
      | Some (k, v, r) \<Rightarrow>
          (case make_token k v of None \<Rightarrow> lex r | Some t \<Rightarrow> t # lex r))"
  by pat_completeness auto
termination
  by (relation "measure length") (auto dest: token_regex_shorter)

text \<open>
  The scan positions of a text: the texts that remain when the scan looks for the
  next match, from the whole text down to the empty text at its end.
\<close>

function scan_positions :: "string \<Rightarrow> string list" where
  "scan_positions [] = [[]]"
| "scan_positions (c # cs) =
     (c # cs) #
     (case token_regex (c # cs) of
        None \<Rightarrow> scan_positions cs
      | Some (k, v, r) \<Rightarrow> scan_positions r)"
  by pat_completeness auto
termination
  by (relation "measure length") (auto dest: token_regex_shorter)

text \<open>
  A pattern is stable under cutting when it never looks past the end of its match except
  to see that the match cannot go on: a pattern that does not match a text matches no
  beginning of it, a match is still the match when the text is cut anywhere after it, and
  the matched text and the text after it make up the text.
\<close>

definition cut_stable :: "regex \<Rightarrow> bool" where
  "cut_stable re \<longleftrightarrow>
     (\<forall>s p. re (s @ p) = None \<longrightarrow> re s = None)
     \<and> (\<forall>v b p. re (v @ b @ p) = Some (v, b @ p) \<longrightarrow> re (v @ b) = Some (v, b))
     \<and> (\<forall>s v r. re s = Some (v, r) \<longrightarrow> s = v @ r)"

subsection \<open>Rendering values as text\<close>

definition digit_char :: "nat \<Rightarrow> char" where
  "digit_char n = ''0123456789abcdef'' ! n"

function str_of_nat :: "nat \<Rightarrow> string" where
  "str_of_nat n =
     (if n < 10 then [digit_char n] else str_of_nat (n div 10) @ [digit_char (n mod 10)])"
  by pat_completeness auto
termination
  by (relation "measure id") auto

declare str_of_nat.simps [simp del]

text \<open>\<^verbatim>\<open>str\<close> and \<^verbatim>\<open>repr\<close> of a Python integer.\<close>

definition str_of_int :: "int \<Rightarrow> string" where
  "str_of_int i = (if i < 0 then CHR ''-'' # str_of_nat (nat (- i)) else str_of_nat (nat i))"

text \<open>
  \<^verbatim>\<open>repr\<close> of a Python string. The delimiter is the apostrophe, or the double quote when
  the text holds an apostrophe and no double quote. The delimiter and the backslash are
  escaped, tab, newline and carriage return are written \<^verbatim>\<open>\t\<close>, \<^verbatim>\<open>\n\<close>, \<^verbatim>\<open>\r\<close>, and
  every other character that is not printable is written \<^verbatim>\<open>\xhh\<close>. Among the code
  points below 256 the printable ones are 32 to 126 and 161 to 255 except 173.
\<close>

definition printable :: "char \<Rightarrow> bool" where
  "printable c =
     (let n = (of_char c :: nat) in (32 \<le> n \<and> n < 127) \<or> (161 \<le> n \<and> n \<noteq> 173))"

definition repr_char :: "char \<Rightarrow> char \<Rightarrow> string" where
  "repr_char q c =
     (if c = q \<or> c = backslash then [backslash, c]
      else if c = tab then [backslash, CHR ''t'']
      else if c = newline then [backslash, CHR ''n'']
      else if c = carriage_return then [backslash, CHR ''r'']
      else if \<not> printable c then
        [backslash, CHR ''x'', digit_char (of_char c div 16), digit_char (of_char c mod 16)]
      else [c])"

definition py_repr :: "string \<Rightarrow> string" where
  "py_repr s =
     (let q = (if apostrophe \<in> set s \<and> quote \<notin> set s then quote else apostrophe)
      in q # concat (map (repr_char q) s) @ [q])"

text \<open>The value of a token, the second component of the pair, as \<^verbatim>\<open>repr\<close> shows it.\<close>

fun repr_value :: "token \<Rightarrow> string" where
  "repr_value (NUMBER n) = str_of_int n"
| "repr_value (STRING s) = py_repr s"
| "repr_value PRINT = py_repr ''print''"
| "repr_value IF = py_repr ''if''"
| "repr_value LBRACE = py_repr ''{''"
| "repr_value RBRACE = py_repr ''}''"
| "repr_value ASSIGN = py_repr ''=''"
| "repr_value (OP s) = py_repr s"
| "repr_value (COMPARE s) = py_repr s"
| "repr_value LPAREN = py_repr ''(''"
| "repr_value RPAREN = py_repr '')''"
| "repr_value (IDENTIFIER s) = py_repr s"

text \<open>A token formatted in a message: the \<^verbatim>\<open>str\<close> of the pair.\<close>

definition repr_token :: "token \<Rightarrow> string" where
  "repr_token t =
     ''('' @ py_repr (kind_name (kind_of t)) @ '', '' @ repr_value t @ '')''"

subsection \<open>Exceptions\<close>

text \<open>The exceptions the program can raise, each with its message.\<close>

datatype py_error =
    SyntaxError string | IndexError string | TypeError string | ZeroDivisionError string
  | OverflowError string

fun message :: "py_error \<Rightarrow> string" where
  "message (SyntaxError m) = m"
| "message (IndexError m) = m"
| "message (TypeError m) = m"
| "message (ZeroDivisionError m) = m"
| "message (OverflowError m) = m"

text \<open>Reading \<^verbatim>\<open>self.tokens[self.pos]\<close> when the position is the length of the list.\<close>

definition index_error :: py_error where
  "index_error = IndexError ''list index out of range''"

subsection \<open>Abstract syntax\<close>

text \<open>
  An expression is a Python integer, a Python string, the pair \<^verbatim>\<open>('var', name)\<close> or
  the triple \<^verbatim>\<open>(op, left, right)\<close>; a statement is \<^verbatim>\<open>('print', expr)\<close>,
  \<^verbatim>\<open>('if', condition, body)\<close> or \<^verbatim>\<open>('assign', var_name, expr)\<close>.
\<close>

datatype expr = IntLit int | StrLit string | Var string | BinOp string expr expr

datatype stmt = Print expr | If expr "stmt list" | Assign string expr

subsection \<open>The parser\<close>

text \<open>
  The parser object holds the token list and a position that only grows; the model
  passes the tokens from the position on. A parsing method returns its result together
  with the tokens left, or the exception it raises.
\<close>

type_synonym 'a parse_result = "py_error + ('a \<times> token list)"

definition peek :: "kind \<Rightarrow> token list \<Rightarrow> bool" where
  "peek k ts = (case ts of [] \<Rightarrow> False | t # r \<Rightarrow> kind_of t = k)"

definition peek_next :: "kind \<Rightarrow> token list \<Rightarrow> bool" where
  "peek_next k ts = (case ts of t # u # r \<Rightarrow> kind_of u = k | _ \<Rightarrow> False)"

text \<open>
  What \<^verbatim>\<open>consume\<close> raises when the token is not of the expected kind: formatting the
  message reads the current token, which fails first at the end of the list.
\<close>

definition consume_error :: "kind \<Rightarrow> token list \<Rightarrow> py_error" where
  "consume_error k ts =
     (case ts of
        [] \<Rightarrow> index_error
      | t # r \<Rightarrow> SyntaxError (''Expected '' @ kind_name k @ '', got '' @ kind_name (kind_of t)))"

definition consume :: "kind \<Rightarrow> token list \<Rightarrow> token parse_result" where
  "consume k ts =
     (case ts of
        [] \<Rightarrow> Inl (consume_error k ts)
      | t # r \<Rightarrow> if peek k ts then Inr (t, r) else Inl (consume_error k ts))"

lemma consume_shorter: "consume k ts = Inr (t, r) \<Longrightarrow> length r < length ts"
  by (auto simp: consume_def split: list.splits if_splits)

text \<open>
  Expressions. The two \<^verbatim>\<open>while\<close> loops are the functions \<open>add_sub_loop\<close> and
  \<open>mul_div_loop\<close>, with the node built so far as argument. The test
  \<^verbatim>\<open>self.current()[1] in '+-'\<close> is Python's substring test. Where the source peeks
  at a kind and then consumes it, the model matches on the token.
\<close>

function (domintros)
  parse_expr :: "token list \<Rightarrow> expr parse_result" and
  parse_compare :: "token list \<Rightarrow> expr parse_result" and
  parse_add_sub :: "token list \<Rightarrow> expr parse_result" and
  add_sub_loop :: "expr \<Rightarrow> token list \<Rightarrow> expr parse_result" and
  parse_mul_div :: "token list \<Rightarrow> expr parse_result" and
  mul_div_loop :: "expr \<Rightarrow> token list \<Rightarrow> expr parse_result" and
  parse_primary :: "token list \<Rightarrow> expr parse_result"
where
  "parse_expr ts = parse_compare ts"
| "parse_compare ts =
     (case parse_add_sub ts of
        Inl e \<Rightarrow> Inl e
      | Inr (left, r) \<Rightarrow>
          (case r of
             COMPARE op # r' \<Rightarrow>
               (case parse_add_sub r' of
                  Inl e \<Rightarrow> Inl e
                | Inr (right, r'') \<Rightarrow> Inr (BinOp op left right, r''))
           | _ \<Rightarrow> Inr (left, r)))"
| "parse_add_sub ts =
     (case parse_mul_div ts of
        Inl e \<Rightarrow> Inl e
      | Inr (node, r) \<Rightarrow> add_sub_loop node r)"
| "add_sub_loop node ts =
     (case ts of
        OP op # r \<Rightarrow>
          if op \<in> set ['''', ''+'', ''-'', ''+-''] then
            (case parse_mul_div r of
               Inl e \<Rightarrow> Inl e
             | Inr (rhs, r') \<Rightarrow> add_sub_loop (BinOp op node rhs) r')
          else Inr (node, ts)
      | _ \<Rightarrow> Inr (node, ts))"
| "parse_mul_div ts =
     (case parse_primary ts of
        Inl e \<Rightarrow> Inl e
      | Inr (node, r) \<Rightarrow> mul_div_loop node r)"
| "mul_div_loop node ts =
     (case ts of
        OP op # r \<Rightarrow>
          if op \<in> set ['''', ''*'', ''/'', ''*/''] then
            (case parse_primary r of
               Inl e \<Rightarrow> Inl e
             | Inr (rhs, r') \<Rightarrow> mul_div_loop (BinOp op node rhs) r')
          else Inr (node, ts)
      | _ \<Rightarrow> Inr (node, ts))"
| "parse_primary ts =
     (case ts of
        [] \<Rightarrow> Inl index_error
      | NUMBER n # r \<Rightarrow> Inr (IntLit n, r)
      | STRING s # r \<Rightarrow> Inr (StrLit s, r)
      | IDENTIFIER x # r \<Rightarrow> Inr (Var x, r)
      | LPAREN # r \<Rightarrow>
          (case parse_expr r of
             Inl e \<Rightarrow> Inl e
           | Inr (node, r') \<Rightarrow>
               (case consume K_RPAREN r' of
                  Inl e \<Rightarrow> Inl e
                | Inr (t, r'') \<Rightarrow> Inr (node, r'')))
      | t # r \<Rightarrow> Inl (SyntaxError (''Unexpected token: '' @ repr_token t)))"
  by pat_completeness auto

text \<open>
  Every expression parser that returns has moved the position forward, and a loop has
  not moved it back; first wherever the functions are defined, which gives termination.
\<close>

lemma parse_expr_shorter_dom:
  "parse_expr_parse_compare_parse_add_sub_add_sub_loop_parse_mul_div_mul_div_loop_parse_primary_dom
     (Inl (Inl ts1)) \<Longrightarrow> parse_expr ts1 = Inr (e1, r1) \<Longrightarrow> length r1 < length ts1"
  "parse_expr_parse_compare_parse_add_sub_add_sub_loop_parse_mul_div_mul_div_loop_parse_primary_dom
     (Inl (Inr (Inl ts2))) \<Longrightarrow> parse_compare ts2 = Inr (e2, r2) \<Longrightarrow> length r2 < length ts2"
  "parse_expr_parse_compare_parse_add_sub_add_sub_loop_parse_mul_div_mul_div_loop_parse_primary_dom
     (Inl (Inr (Inr ts3))) \<Longrightarrow> parse_add_sub ts3 = Inr (e3, r3) \<Longrightarrow> length r3 < length ts3"
  "parse_expr_parse_compare_parse_add_sub_add_sub_loop_parse_mul_div_mul_div_loop_parse_primary_dom
     (Inr (Inl (Inl (n4, ts4)))) \<Longrightarrow> add_sub_loop n4 ts4 = Inr (e4, r4) \<Longrightarrow> length r4 \<le> length ts4"
  "parse_expr_parse_compare_parse_add_sub_add_sub_loop_parse_mul_div_mul_div_loop_parse_primary_dom
     (Inr (Inl (Inr ts5))) \<Longrightarrow> parse_mul_div ts5 = Inr (e5, r5) \<Longrightarrow> length r5 < length ts5"
  "parse_expr_parse_compare_parse_add_sub_add_sub_loop_parse_mul_div_mul_div_loop_parse_primary_dom
     (Inr (Inr (Inl (n6, ts6)))) \<Longrightarrow> mul_div_loop n6 ts6 = Inr (e6, r6) \<Longrightarrow> length r6 \<le> length ts6"
  "parse_expr_parse_compare_parse_add_sub_add_sub_loop_parse_mul_div_mul_div_loop_parse_primary_dom
     (Inr (Inr (Inr ts7))) \<Longrightarrow> parse_primary ts7 = Inr (e7, r7) \<Longrightarrow> length r7 < length ts7"
proof (induct ts1 and ts2 and ts3 and n4 ts4 and ts5 and n6 ts6 and ts7
    arbitrary: e1 r1 and e2 r2 and e3 r3 and e4 r4 and e5 r5 and e6 r6 and e7 r7
    rule: parse_expr_parse_compare_parse_add_sub_add_sub_loop_parse_mul_div_mul_div_loop_parse_primary.pinduct)
  case (1 ts)
  then show ?case by (simp add: parse_expr.psimps)
next
  case (2 ts)
  then show ?case
    by (fastforce simp: parse_compare.psimps
        split: sum.splits list.splits token.splits prod.splits)
next
  case (3 ts)
  then show ?case
    by (fastforce simp: parse_add_sub.psimps split: sum.splits prod.splits)
next
  case (4 node ts)
  then show ?case
    by (fastforce simp: add_sub_loop.psimps
        split: sum.splits list.splits token.splits prod.splits if_splits)
next
  case (5 ts)
  then show ?case
    by (fastforce simp: parse_mul_div.psimps split: sum.splits prod.splits)
next
  case (6 node ts)
  then show ?case
    by (fastforce simp: mul_div_loop.psimps
        split: sum.splits list.splits token.splits prod.splits if_splits)
next
  case (7 ts)
  then show ?case
    by (fastforce simp: parse_primary.psimps
        split: sum.splits list.splits token.splits prod.splits dest: consume_shorter)
qed

termination parse_expr
  apply (relation "measure (\<lambda>x. case x of
      Inl (Inl ts) \<Rightarrow> 7 * length ts + 6
    | Inl (Inr (Inl ts)) \<Rightarrow> 7 * length ts + 5
    | Inl (Inr (Inr ts)) \<Rightarrow> 7 * length ts + 4
    | Inr (Inl (Inl (node, ts))) \<Rightarrow> 7 * length ts + 3
    | Inr (Inl (Inr ts)) \<Rightarrow> 7 * length ts + 2
    | Inr (Inr (Inl (node, ts))) \<Rightarrow> 7 * length ts + 1
    | Inr (Inr (Inr ts)) \<Rightarrow> 7 * length ts)")
                apply simp_all
      apply (auto dest!: parse_expr_shorter_dom)
  done

declare parse_expr.simps [simp del] parse_compare.simps [simp del]
  parse_add_sub.simps [simp del] add_sub_loop.simps [simp del]
  parse_mul_div.simps [simp del] mul_div_loop.simps [simp del]
  parse_primary.simps [simp del]

lemma parse_expr_shorter:
  "parse_expr ts1 = Inr (e1, r1) \<Longrightarrow> length r1 < length ts1"
  "parse_compare ts2 = Inr (e2, r2) \<Longrightarrow> length r2 < length ts2"
  "parse_add_sub ts3 = Inr (e3, r3) \<Longrightarrow> length r3 < length ts3"
  "add_sub_loop n4 ts4 = Inr (e4, r4) \<Longrightarrow> length r4 \<le> length ts4"
  "parse_mul_div ts5 = Inr (e5, r5) \<Longrightarrow> length r5 < length ts5"
  "mul_div_loop n6 ts6 = Inr (e6, r6) \<Longrightarrow> length r6 \<le> length ts6"
  "parse_primary ts7 = Inr (e7, r7) \<Longrightarrow> length r7 < length ts7"
proof (induct ts1 and ts2 and ts3 and n4 ts4 and ts5 and n6 ts6 and ts7
    arbitrary: e1 r1 and e2 r2 and e3 r3 and e4 r4 and e5 r5 and e6 r6 and e7 r7
    rule: parse_expr_parse_compare_parse_add_sub_add_sub_loop_parse_mul_div_mul_div_loop_parse_primary.induct)
  case (1 ts)
  then show ?case by (simp add: parse_expr.simps)
next
  case (2 ts)
  from "2.prems" [unfolded parse_compare.simps [of ts]] "2.hyps" show ?case
    by (fastforce split: sum.splits list.splits token.splits prod.splits)
next
  case (3 ts)
  from "3.prems" [unfolded parse_add_sub.simps [of ts]] "3.hyps" show ?case
    by (fastforce split: sum.splits prod.splits)
next
  case (4 node ts)
  from "4.prems" [unfolded add_sub_loop.simps [of node ts]] "4.hyps" show ?case
    by (fastforce split: sum.splits list.splits token.splits prod.splits if_splits)
next
  case (5 ts)
  from "5.prems" [unfolded parse_mul_div.simps [of ts]] "5.hyps" show ?case
    by (fastforce split: sum.splits prod.splits)
next
  case (6 node ts)
  from "6.prems" [unfolded mul_div_loop.simps [of node ts]] "6.hyps" show ?case
    by (fastforce split: sum.splits list.splits token.splits prod.splits if_splits)
next
  case (7 ts)
  from "7.prems" [unfolded parse_primary.simps [of ts]] "7.hyps" show ?case
    by (fastforce split: sum.splits list.splits token.splits prod.splits
        dest: consume_shorter)
qed

text \<open>Statements.\<close>

definition parse_print :: "token list \<Rightarrow> stmt parse_result" where
  "parse_print ts =
     (case consume K_PRINT ts of
        Inl e \<Rightarrow> Inl e
      | Inr (t, r) \<Rightarrow>
          (case parse_expr r of
             Inl e \<Rightarrow> Inl e
           | Inr (ex, r') \<Rightarrow> Inr (Print ex, r')))"

definition parse_assignment :: "token list \<Rightarrow> stmt parse_result" where
  "parse_assignment ts =
     (case ts of
        IDENTIFIER var_name # r \<Rightarrow>
          (case consume K_ASSIGN r of
             Inl e \<Rightarrow> Inl e
           | Inr (t, r') \<Rightarrow>
               (case parse_expr r' of
                  Inl e \<Rightarrow> Inl e
                | Inr (ex, r'') \<Rightarrow> Inr (Assign var_name ex, r'')))
      | _ \<Rightarrow> Inl (consume_error K_IDENTIFIER ts))"

text \<open>
  What \<^verbatim>\<open>parse_stmt\<close> raises in its last branch; the message reads the current token.
\<close>

definition invalid_statement :: "token list \<Rightarrow> py_error" where
  "invalid_statement ts =
     (case ts of
        [] \<Rightarrow> index_error
      | t # r \<Rightarrow> SyntaxError (''Invalid statement at token '' @ repr_token t))"

text \<open>
  \<open>if_body_loop\<close> is the \<^verbatim>\<open>while not self.peek('RBRACE')\<close> loop of \<^verbatim>\<open>parse_if\<close>, with
  the list \<^verbatim>\<open>body\<close> built so far.
\<close>

function (domintros)
  parse_stmt :: "token list \<Rightarrow> stmt parse_result" and
  parse_if :: "token list \<Rightarrow> stmt parse_result" and
  if_body_loop :: "stmt list \<Rightarrow> token list \<Rightarrow> (stmt list) parse_result"
where
  "parse_stmt ts =
     (if peek K_PRINT ts then parse_print ts
      else if peek K_IF ts then parse_if ts
      else if peek K_IDENTIFIER ts \<and> peek_next K_ASSIGN ts then parse_assignment ts
      else Inl (invalid_statement ts))"
| "parse_if ts =
     (case consume K_IF ts of
        Inl e \<Rightarrow> Inl e
      | Inr (t, r) \<Rightarrow>
          (case parse_expr r of
             Inl e \<Rightarrow> Inl e
           | Inr (condition, r1) \<Rightarrow>
               (case consume K_LBRACE r1 of
                  Inl e \<Rightarrow> Inl e
                | Inr (t1, r2) \<Rightarrow>
                    (case if_body_loop [] r2 of
                       Inl e \<Rightarrow> Inl e
                     | Inr (body, r3) \<Rightarrow>
                         (case consume K_RBRACE r3 of
                            Inl e \<Rightarrow> Inl e
                          | Inr (t3, r4) \<Rightarrow> Inr (If condition body, r4))))))"
| "if_body_loop body ts =
     (if \<not> peek K_RBRACE ts then
        (case parse_stmt ts of
           Inl e \<Rightarrow> Inl e
         | Inr (s, r) \<Rightarrow> if_body_loop (body @ [s]) r)
      else Inr (body, ts))"
  by pat_completeness auto

lemma parse_print_shorter: "parse_print ts = Inr (s, r) \<Longrightarrow> length r < length ts"
  by (fastforce simp: parse_print_def split: sum.splits prod.splits
      dest: consume_shorter parse_expr_shorter(1))

lemma parse_assignment_shorter: "parse_assignment ts = Inr (s, r) \<Longrightarrow> length r < length ts"
  by (fastforce simp: parse_assignment_def split: sum.splits prod.splits list.splits token.splits
      dest: consume_shorter parse_expr_shorter(1))

lemma parse_stmt_shorter_dom:
  "parse_stmt_parse_if_if_body_loop_dom (Inl ts1) \<Longrightarrow>
     parse_stmt ts1 = Inr (s1, r1) \<Longrightarrow> length r1 < length ts1"
  "parse_stmt_parse_if_if_body_loop_dom (Inr (Inl ts2)) \<Longrightarrow>
     parse_if ts2 = Inr (s2, r2) \<Longrightarrow> length r2 < length ts2"
  "parse_stmt_parse_if_if_body_loop_dom (Inr (Inr (b3, ts3))) \<Longrightarrow>
     if_body_loop b3 ts3 = Inr (s3, r3) \<Longrightarrow> length r3 \<le> length ts3"
proof (induct ts1 and ts2 and b3 ts3 arbitrary: s1 r1 and s2 r2 and s3 r3
    rule: parse_stmt_parse_if_if_body_loop.pinduct)
  case (1 ts)
  then show ?case
    by (auto simp: parse_stmt.psimps split: if_splits
        dest: parse_print_shorter parse_assignment_shorter)
next
  case (2 ts)
  then show ?case
    by (fastforce simp: parse_if.psimps split: sum.splits prod.splits
        dest: consume_shorter parse_expr_shorter(1))
next
  case (3 body ts)
  then show ?case
    by (fastforce simp: if_body_loop.psimps split: sum.splits prod.splits if_splits)
qed

termination parse_stmt
  apply (relation "measure (\<lambda>x. case x of
      Inl ts \<Rightarrow> 3 * length ts + 1
    | Inr (Inl ts) \<Rightarrow> 3 * length ts
    | Inr (Inr (body, ts)) \<Rightarrow> 3 * length ts + 2)")
      apply simp_all
   apply (auto dest!: parse_stmt_shorter_dom consume_shorter parse_expr_shorter(1))
  done

declare parse_stmt.simps [simp del] parse_if.simps [simp del] if_body_loop.simps [simp del]

lemma parse_stmt_shorter:
  "parse_stmt ts1 = Inr (s1, r1) \<Longrightarrow> length r1 < length ts1"
  "parse_if ts2 = Inr (s2, r2) \<Longrightarrow> length r2 < length ts2"
  "if_body_loop b3 ts3 = Inr (s3, r3) \<Longrightarrow> length r3 \<le> length ts3"
proof (induct ts1 and ts2 and b3 ts3 arbitrary: s1 r1 and s2 r2 and s3 r3
    rule: parse_stmt_parse_if_if_body_loop.induct)
  case (1 ts)
  from "1.prems" [unfolded parse_stmt.simps [of ts]] "1.hyps" show ?case
    by (auto split: if_splits dest: parse_print_shorter parse_assignment_shorter)
next
  case (2 ts)
  from "2.prems" [unfolded parse_if.simps [of ts]] "2.hyps" show ?case
    by (fastforce split: sum.splits prod.splits dest: consume_shorter parse_expr_shorter(1))
next
  case (3 body ts)
  from "3.prems" [unfolded if_body_loop.simps [of body ts]] "3.hyps" show ?case
    by (fastforce split: sum.splits prod.splits if_splits)
qed

text \<open>
  \<^verbatim>\<open>Parser.parse\<close>: statements are parsed until the position reaches the end of the
  token list; \<open>parse_loop\<close> is its \<^verbatim>\<open>while\<close> loop with the list \<^verbatim>\<open>stmts\<close>.
\<close>

function parse_loop :: "stmt list \<Rightarrow> token list \<Rightarrow> py_error + stmt list" where
  "parse_loop stmts ts =
     (if ts \<noteq> [] then
        (case parse_stmt ts of
           Inl e \<Rightarrow> Inl e
         | Inr (s, r) \<Rightarrow> parse_loop (stmts @ [s]) r)
      else Inr stmts)"
  by pat_completeness auto
termination
  by (relation "measure (\<lambda>(stmts, ts). length ts)") (auto dest: parse_stmt_shorter(1))

declare parse_loop.simps [simp del]

definition parse :: "token list \<Rightarrow> py_error + stmt list" where
  "parse ts = parse_loop [] ts"

subsection \<open>Runtime values and operators\<close>

text \<open>
  A value is a Python \<^verbatim>\<open>int\<close>, \<^verbatim>\<open>str\<close> or \<^verbatim>\<open>bool\<close> (the result of a comparison), or
  \<^verbatim>\<open>None\<close>, which \<^verbatim>\<open>eval_expr\<close> returns for a triple whose operator none of its
  branches names.
\<close>

datatype pyval = Integer int | Text string | Boolean bool | NoneVal

fun type_name :: "pyval \<Rightarrow> string" where
  "type_name (Integer n) = ''int''"
| "type_name (Text s) = ''str''"
| "type_name (Boolean b) = ''bool''"
| "type_name NoneVal = ''NoneType''"

text \<open>\<^verbatim>\<open>bool\<close> is a subclass of \<^verbatim>\<open>int\<close>: in arithmetic and ordering it is 0 or 1.\<close>

fun as_int :: "pyval \<Rightarrow> int option" where
  "as_int (Integer n) = Some n"
| "as_int (Boolean b) = Some (if b then 1 else 0)"
| "as_int (Text s) = None"
| "as_int NoneVal = None"

definition squoted :: "string \<Rightarrow> string" where
  "squoted s = apostrophe # s @ [apostrophe]"

definition unsupported :: "string \<Rightarrow> pyval \<Rightarrow> pyval \<Rightarrow> py_error" where
  "unsupported op l r =
     TypeError (''unsupported operand type(s) for '' @ op @ '': '' @ squoted (type_name l)
       @ '' and '' @ squoted (type_name r))"

definition cannot_multiply :: "pyval \<Rightarrow> py_error" where
  "cannot_multiply v =
     TypeError (''can'' @ [apostrophe] @ ''t multiply sequence by non-int of type ''
       @ squoted (type_name v))"

definition cannot_concatenate :: "pyval \<Rightarrow> py_error" where
  "cannot_concatenate v =
     TypeError (''can only concatenate str (not '' @ [quote] @ type_name v @ [quote]
       @ '') to str'')"

definition not_supported :: "string \<Rightarrow> pyval \<Rightarrow> pyval \<Rightarrow> py_error" where
  "not_supported op l r =
     TypeError (squoted op @ '' not supported between instances of ''
       @ squoted (type_name l) @ '' and '' @ squoted (type_name r))"

text \<open>
  The length of a text and the count of a repetition are indices of the host, signed
  integers of the width of a machine word. The runtime that the page loads
  (\<^verbatim>\<open>pyodide/v0.23.4\<close>) is a 32-bit build, so an index lies between \<open>ssize_min\<close> and
  \<open>ssize_max\<close>. A text that fits an index may still not fit the memory of the host;
  that failure is a limit of the host and is not modelled.
\<close>

definition ssize_max :: int where
  "ssize_max = 2 ^ 31 - 1"

definition ssize_min :: int where
  "ssize_min = - (2 ^ 31)"

text \<open>
  \<^verbatim>\<open>left_val + right_val\<close>: a sum of integers, or two texts concatenated; the host refuses
  a concatenation longer than an index.
\<close>

definition py_concat :: "string \<Rightarrow> string \<Rightarrow> py_error + pyval" where
  "py_concat s t =
     (if ssize_max - int (length t) < int (length s)
      then Inl (OverflowError ''strings are too large to concat'')
      else Inr (Text (s @ t)))"

definition py_add :: "pyval \<Rightarrow> pyval \<Rightarrow> py_error + pyval" where
  "py_add l r =
     (case (as_int l, as_int r) of
        (Some a, Some b) \<Rightarrow> Inr (Integer (a + b))
      | _ \<Rightarrow>
          (case l of
             Text s \<Rightarrow> (case r of Text t \<Rightarrow> py_concat s t | _ \<Rightarrow> Inl (cannot_concatenate r))
           | _ \<Rightarrow> Inl (unsupported ''+'' l r)))"

text \<open>\<^verbatim>\<open>left_val - right_val\<close>\<close>

definition py_sub :: "pyval \<Rightarrow> pyval \<Rightarrow> py_error + pyval" where
  "py_sub l r =
     (case (as_int l, as_int r) of
        (Some a, Some b) \<Rightarrow> Inr (Integer (a - b))
      | _ \<Rightarrow> Inl (unsupported ''-'' l r))"

text \<open>
  A text repeated, the host's \<^verbatim>\<open>str * int\<close>. The count is converted to an index first,
  which fails when it does not fit; a count below one gives the empty text; the host
  refuses a result longer than an index.
\<close>

definition py_repeat :: "string \<Rightarrow> int \<Rightarrow> py_error + pyval" where
  "py_repeat s n =
     (if n < ssize_min \<or> ssize_max < n
      then Inl (OverflowError
             (''cannot fit '' @ squoted ''int'' @ '' into an index-sized integer''))
      else if n < 1 then Inr (Text [])
      else if n = 1 then Inr (Text s)
      else if ssize_max div n < int (length s)
      then Inl (OverflowError ''repeated string is too long'')
      else Inr (Text (concat (replicate (nat n) s))))"

text \<open>\<^verbatim>\<open>left_val * right_val\<close>: a product of integers, or a text repeated.\<close>

definition py_mul :: "pyval \<Rightarrow> pyval \<Rightarrow> py_error + pyval" where
  "py_mul l r =
     (case (as_int l, as_int r) of
        (Some a, Some b) \<Rightarrow> Inr (Integer (a * b))
      | _ \<Rightarrow>
          (case l of
             Text s \<Rightarrow>
               (case as_int r of
                  Some n \<Rightarrow> py_repeat s n
                | None \<Rightarrow> Inl (cannot_multiply r))
           | _ \<Rightarrow>
               (case r of
                  Text s \<Rightarrow>
                    (case as_int l of
                       Some n \<Rightarrow> py_repeat s n
                     | None \<Rightarrow> Inl (cannot_multiply l))
                | _ \<Rightarrow> Inl (unsupported ''*'' l r))))"

text \<open>\<^verbatim>\<open>left_val // right_val\<close>: the quotient rounded down.\<close>

definition py_floordiv :: "pyval \<Rightarrow> pyval \<Rightarrow> py_error + pyval" where
  "py_floordiv l r =
     (case (as_int l, as_int r) of
        (Some a, Some b) \<Rightarrow>
          if b = 0 then Inl (ZeroDivisionError ''integer division or modulo by zero'')
          else Inr (Integer (a div b))
      | _ \<Rightarrow> Inl (unsupported ''//'' l r))"

text \<open>Texts are ordered by their code points, the first difference deciding.\<close>

fun str_less :: "string \<Rightarrow> string \<Rightarrow> bool" where
  "str_less [] [] = False"
| "str_less [] (y # ys) = True"
| "str_less (x # xs) [] = False"
| "str_less (x # xs) (y # ys) =
     ((of_char x :: nat) < of_char y \<or> (x = y \<and> str_less xs ys))"

text \<open>
  The four orderings: \<open>f\<close> compares integers and \<open>g\<close> compares texts; any other pair
  of operands is a \<^verbatim>\<open>TypeError\<close>.
\<close>

definition py_order ::
  "string \<Rightarrow> (int \<Rightarrow> int \<Rightarrow> bool) \<Rightarrow> (string \<Rightarrow> string \<Rightarrow> bool) \<Rightarrow> pyval \<Rightarrow> pyval \<Rightarrow> py_error + pyval"
where
  "py_order op f g l r =
     (case (as_int l, as_int r) of
        (Some a, Some b) \<Rightarrow> Inr (Boolean (f a b))
      | _ \<Rightarrow>
          (case l of
             Text s \<Rightarrow> (case r of Text t \<Rightarrow> Inr (Boolean (g s t)) | _ \<Rightarrow> Inl (not_supported op l r))
           | _ \<Rightarrow> Inl (not_supported op l r)))"

definition py_gt :: "pyval \<Rightarrow> pyval \<Rightarrow> py_error + pyval" where
  "py_gt = py_order ''>'' (\<lambda>a b. a > b) (\<lambda>s t. str_less t s)"

definition py_lt :: "pyval \<Rightarrow> pyval \<Rightarrow> py_error + pyval" where
  "py_lt = py_order ''<'' (\<lambda>a b. a < b) (\<lambda>s t. str_less s t)"

definition py_ge :: "pyval \<Rightarrow> pyval \<Rightarrow> py_error + pyval" where
  "py_ge = py_order ''>='' (\<lambda>a b. a \<ge> b) (\<lambda>s t. \<not> str_less s t)"

definition py_le :: "pyval \<Rightarrow> pyval \<Rightarrow> py_error + pyval" where
  "py_le = py_order ''<='' (\<lambda>a b. a \<le> b) (\<lambda>s t. \<not> str_less t s)"

text \<open>\<^verbatim>\<open>left_val == right_val\<close> never raises: values of different kinds are unequal.\<close>

definition py_eq :: "pyval \<Rightarrow> pyval \<Rightarrow> py_error + pyval" where
  "py_eq l r =
     (case (as_int l, as_int r) of
        (Some a, Some b) \<Rightarrow> Inr (Boolean (a = b))
      | _ \<Rightarrow>
          (case (l, r) of
             (Text s, Text t) \<Rightarrow> Inr (Boolean (s = t))
           | (NoneVal, NoneVal) \<Rightarrow> Inr (Boolean True)
           | _ \<Rightarrow> Inr (Boolean False)))"

text \<open>\<^verbatim>\<open>str(value)\<close>, and the truth value that \<^verbatim>\<open>if condition:\<close> tests.\<close>

fun py_str :: "pyval \<Rightarrow> string" where
  "py_str (Integer n) = str_of_int n"
| "py_str (Text s) = s"
| "py_str (Boolean b) = (if b then ''True'' else ''False'')"
| "py_str NoneVal = ''None''"

fun truthy :: "pyval \<Rightarrow> bool" where
  "truthy (Integer n) = (n \<noteq> 0)"
| "truthy (Text s) = (s \<noteq> [])"
| "truthy (Boolean b) = b"
| "truthy NoneVal = False"

subsection \<open>The interpreter\<close>

record interp =
  vars :: "string \<rightharpoonup> pyval"
  output_buffer :: "string list"

definition Interpreter_init :: interp where
  "Interpreter_init = \<lparr>vars = Map.empty, output_buffer = []\<rparr>"

fun eval_expr :: "interp \<Rightarrow> expr \<Rightarrow> py_error + pyval" where
  "eval_expr self (IntLit n) = Inr (Integer n)"
| "eval_expr self (StrLit s) = Inr (Text s)"
| "eval_expr self (Var var_name) =
     Inr (case vars self var_name of None \<Rightarrow> Integer 0 | Some v \<Rightarrow> v)"
| "eval_expr self (BinOp op left right) =
     (case eval_expr self left of
        Inl e \<Rightarrow> Inl e
      | Inr left_val \<Rightarrow>
          (case eval_expr self right of
             Inl e \<Rightarrow> Inl e
           | Inr right_val \<Rightarrow>
               if op = ''+'' then py_add left_val right_val
               else if op = ''-'' then py_sub left_val right_val
               else if op = ''*'' then py_mul left_val right_val
               else if op = ''/'' then py_floordiv left_val right_val
               else if op = ''>'' then py_gt left_val right_val
               else if op = ''<'' then py_lt left_val right_val
               else if op = ''=='' then py_eq left_val right_val
               else if op = ''>='' then py_ge left_val right_val
               else if op = ''<='' then py_le left_val right_val
               else Inr NoneVal))"

text \<open>
  A statement changes the interpreter object. When it raises, the object stays as it
  was at that moment: the result is the exception, if any, and the object.
\<close>

fun
  eval_stmt :: "stmt \<Rightarrow> interp \<Rightarrow> py_error option \<times> interp" and
  eval_stmts :: "stmt list \<Rightarrow> interp \<Rightarrow> py_error option \<times> interp"
where
  "eval_stmt (Print ex) self =
     (case eval_expr self ex of
        Inl e \<Rightarrow> (Some e, self)
      | Inr v \<Rightarrow> (None, self\<lparr>output_buffer := output_buffer self @ [py_str v]\<rparr>))"
| "eval_stmt (If cond body) self =
     (case eval_expr self cond of
        Inl e \<Rightarrow> (Some e, self)
      | Inr condition \<Rightarrow> if truthy condition then eval_stmts body self else (None, self))"
| "eval_stmt (Assign var_name ex) self =
     (case eval_expr self ex of
        Inl e \<Rightarrow> (Some e, self)
      | Inr v \<Rightarrow> (None, self\<lparr>vars := (vars self)(var_name \<mapsto> v)\<rparr>))"
| "eval_stmts [] self = (None, self)"
| "eval_stmts (s # ss) self =
     (case eval_stmt s self of
        (Some e, self') \<Rightarrow> (Some e, self')
      | (None, self') \<Rightarrow> eval_stmts ss self')"

text \<open>
  The expressions that \<^verbatim>\<open>eval_expr\<close> evaluates on the way: the expression itself, what
  the evaluation of the left operand evaluates and, when the left operand raised
  nothing, what the evaluation of the right operand evaluates.
\<close>

fun evaluates :: "interp \<Rightarrow> expr \<Rightarrow> expr \<Rightarrow> bool" where
  "evaluates self (BinOp op left right) sub =
     (sub = BinOp op left right
      \<or> evaluates self left sub
      \<or> (case eval_expr self left of
            Inl e \<Rightarrow> False
          | Inr left_val \<Rightarrow> evaluates self right sub))"
| "evaluates self (IntLit n) sub = (sub = IntLit n)"
| "evaluates self (StrLit s) sub = (sub = StrLit s)"
| "evaluates self (Var x) sub = (sub = Var x)"

text \<open>
  A statement, started on the object \<open>self\<close>, evaluates the expression \<open>sub\<close> when the
  object is \<open>state\<close>: a \<^verbatim>\<open>print\<close> and an assignment evaluate their expression on the
  object as it is; an \<^verbatim>\<open>if\<close> evaluates its condition and, when the condition is true,
  what the statements of its body evaluate; a list of statements evaluates what its
  first statement evaluates and, when that raised nothing, what the others evaluate on
  the object it left.
\<close>

fun
  stmt_evaluates :: "stmt \<Rightarrow> interp \<Rightarrow> interp \<Rightarrow> expr \<Rightarrow> bool" and
  stmts_evaluate :: "stmt list \<Rightarrow> interp \<Rightarrow> interp \<Rightarrow> expr \<Rightarrow> bool"
where
  "stmt_evaluates (Print ex) self state sub = (state = self \<and> evaluates self ex sub)"
| "stmt_evaluates (If cond body) self state sub =
     ((state = self \<and> evaluates self cond sub)
      \<or> (case eval_expr self cond of
            Inl e \<Rightarrow> False
          | Inr condition \<Rightarrow> truthy condition \<and> stmts_evaluate body self state sub))"
| "stmt_evaluates (Assign var_name ex) self state sub = (state = self \<and> evaluates self ex sub)"
| "stmts_evaluate [] self state sub = False"
| "stmts_evaluate (s # ss) self state sub =
     (stmt_evaluates s self state sub
      \<or> (case eval_stmt s self of
            (Some e, self') \<Rightarrow> False
          | (None, self') \<Rightarrow> stmts_evaluate ss self' state sub))"

text \<open>\<^verbatim>\<open>'\n'.join(self.output)\<close>\<close>

fun join_lines :: "string list \<Rightarrow> string" where
  "join_lines [] = []"
| "join_lines [x] = x"
| "join_lines (x # y # ys) = x @ [newline] @ join_lines (y # ys)"

text \<open>
  \<^verbatim>\<open>Interpreter.run\<close> empties the output buffer, runs the statements and returns the
  joined buffer, or raises; the second component is the object afterwards.
\<close>

definition Interpreter_run :: "interp \<Rightarrow> stmt list \<Rightarrow> (py_error + string) \<times> interp" where
  "Interpreter_run self ast =
     (case eval_stmts ast (self\<lparr>output_buffer := []\<rparr>) of
        (Some e, self') \<Rightarrow> (Inl e, self')
      | (None, self') \<Rightarrow> (Inr (join_lines (output_buffer self')), self'))"

subsection \<open>The runner\<close>

definition error_line :: "py_error \<Rightarrow> string" where
  "error_line e = ''Error: '' @ message e"

definition run_ezlang :: "string \<Rightarrow> string" where
  "run_ezlang code =
     (case parse (lex code) of
        Inl e \<Rightarrow> error_line e
      | Inr ast \<Rightarrow>
          (case Interpreter_run Interpreter_init ast of
             (Inl e, self) \<Rightarrow> error_line e
           | (Inr out, self) \<Rightarrow> out))"

text \<open>
  The entry point with the store of interpreter objects written out. The store is the
  list of the objects allocated so far, an address is a position in it.
  \<^verbatim>\<open>Interpreter()\<close> allocates an object with empty variables and an empty output buffer
  at an address that no object has; \<^verbatim>\<open>interpreter.run(ast)\<close> reads and updates the object
  at the address it is called on (an address of the store: \<^verbatim>\<open>run_ezlang\<close> calls it on the
  address just allocated). The objects of earlier calls stay in the store.
\<close>

type_synonym heap = "interp list"

definition Interpreter_new :: "heap \<Rightarrow> nat \<times> heap" where
  "Interpreter_new h = (length h, h @ [Interpreter_init])"

definition Interpreter_run_at :: "nat \<Rightarrow> stmt list \<Rightarrow> heap \<Rightarrow> (py_error + string) \<times> heap" where
  "Interpreter_run_at interpreter ast h =
     (case Interpreter_run (h ! interpreter) ast of
        (res, self') \<Rightarrow> (res, h[interpreter := self']))"

definition run_ezlang_heap :: "string \<Rightarrow> heap \<Rightarrow> string \<times> heap" where
  "run_ezlang_heap code h =
     (case parse (lex code) of
        Inl e \<Rightarrow> (error_line e, h)
      | Inr ast \<Rightarrow>
          (case Interpreter_new h of
             (interpreter, h1) \<Rightarrow>
               (case Interpreter_run_at interpreter ast h1 of
                  (Inl e, h2) \<Rightarrow> (error_line e, h2)
                | (Inr out, h2) \<Rightarrow> (out, h2))))"

text \<open>A text without a newline character: a single line.\<close>

definition one_line :: "string \<Rightarrow> bool" where
  "one_line s = (newline \<notin> set s)"

section \<open>Properties of the lexer\<close>

lemma first_match_None_iff:
  "first_match specs s = None \<longleftrightarrow> (\<forall>(k, re) \<in> set specs. re s = None)"
  by (induction specs s rule: first_match.induct) (auto split: option.splits)

lemma first_match_Cons_Some_iff:
  "first_match ((k, re) # specs) s = Some (k', v, r) \<longleftrightarrow>
     (re s = Some (v, r) \<and> k = k') \<or> (re s = None \<and> first_match specs s = Some (k', v, r))"
  by (auto split: option.splits)

text \<open>
  The characters at which no pattern matches: those outside every character class and
  every one-character literal, and a quote that no later quote closes.
\<close>

lemma token_regex_unmatched_iff:
  "token_regex (c # cs) = None \<longleftrightarrow>
     \<not> is_digit c \<and> \<not> is_ident_char c \<and> \<not> is_skip_char c \<and> \<not> is_op_char c
       \<and> c \<notin> set ''{}=<>()'' \<and> (c = quote \<longrightarrow> quote \<notin> set cs)"
proof -
  have str: "re_string (c # cs) = None \<longleftrightarrow> (c = quote \<longrightarrow> quote \<notin> set cs)"
  proof (cases "dropWhile (\<lambda>d. d \<noteq> quote) cs")
    case Nil
    then have "quote \<notin> set cs"
      using dropWhile_eq_Nil_conv [of "\<lambda>d. d \<noteq> quote" cs] by auto
    then show ?thesis by (simp add: re_string_def Nil)
  next
    case (Cons a list)
    then have "quote \<in> set cs"
      using dropWhile_eq_Nil_conv [of "\<lambda>d. d \<noteq> quote" cs] by auto
    then show ?thesis by (simp add: re_string_def Cons)
  qed
  have num: "re_plus is_digit (c # cs) = None \<longleftrightarrow> \<not> is_digit c"
    by (simp add: re_plus_def)
  have idt: "re_plus is_ident_char (c # cs) = None \<longleftrightarrow> \<not> is_ident_char c"
    by (simp add: re_plus_def)
  have skp: "re_plus is_skip_char (c # cs) = None \<longleftrightarrow> \<not> is_skip_char c"
    by (simp add: re_plus_def)
  have op: "re_one is_op_char (c # cs) = None \<longleftrightarrow> \<not> is_op_char c"
    by (simp add: re_one_def)
  have lit1: "\<And>d. re_literal [d] (c # cs) = None \<longleftrightarrow> c \<noteq> d"
    by (auto simp: re_literal_def)
  have cmp: "re_compare (c # cs) = None \<longleftrightarrow>
      c \<noteq> CHR ''<'' \<and> c \<noteq> CHR ''>'' \<and> re_literal ''=='' (c # cs) = None"
    by (auto simp: re_compare_def split: list.splits)
  have eqeq: "c \<noteq> CHR ''='' \<Longrightarrow> re_literal ''=='' (c # cs) = None"
    by (auto simp: re_literal_def)
  have pr: "\<not> is_ident_char c \<Longrightarrow> re_literal ''print'' (c # cs) = None"
    by (auto simp: re_literal_def is_ident_char_def)
  have iff: "\<not> is_ident_char c \<Longrightarrow> re_literal ''if'' (c # cs) = None"
    by (auto simp: re_literal_def is_ident_char_def)
  have "token_regex (c # cs) = None \<longleftrightarrow>
      \<not> is_digit c \<and> (c = quote \<longrightarrow> quote \<notin> set cs)
      \<and> re_literal ''print'' (c # cs) = None \<and> re_literal ''if'' (c # cs) = None
      \<and> c \<noteq> CHR ''{'' \<and> c \<noteq> CHR ''}'' \<and> c \<noteq> CHR ''='' \<and> \<not> is_op_char c
      \<and> (c \<noteq> CHR ''<'' \<and> c \<noteq> CHR ''>'' \<and> re_literal ''=='' (c # cs) = None)
      \<and> c \<noteq> CHR ''('' \<and> c \<noteq> CHR '')'' \<and> \<not> is_ident_char c \<and> \<not> is_skip_char c"
    unfolding token_regex_def token_specs_def first_match_None_iff
    by (simp add: str num idt skp op lit1 cmp)
  then show ?thesis
    using eqeq pr iff by auto
qed

text \<open>
  A match does not look past its own end, except to see that it cannot be extended:
  cutting the text anywhere after a match leaves the match, and a pattern that does not
  match a text matches no beginning of it.
\<close>

lemma takeWhile_Nil_prefix: "takeWhile P (b @ p) = [] \<Longrightarrow> takeWhile P b = []"
  by (cases b) (simp_all split: if_splits)

lemma re_plus_prefix:
  "re_plus P (s @ p) = None \<Longrightarrow> re_plus P s = None"
  "re_plus P (v @ b @ p) = Some (v, b @ p) \<Longrightarrow> re_plus P (v @ b) = Some (v, b)"
proof -
  assume "re_plus P (s @ p) = None"
  then have "takeWhile P (s @ p) = []" by (simp add: re_plus_def split: if_splits)
  then have "takeWhile P s = []" by (rule takeWhile_Nil_prefix)
  then show "re_plus P s = None" by (simp add: re_plus_def)
next
  assume a: "re_plus P (v @ b @ p) = Some (v, b @ p)"
  then have tw: "takeWhile P (v @ b @ p) = v" and ne: "v \<noteq> []"
    by (simp_all add: re_plus_def split: if_splits)
  have all: "\<And>x. x \<in> set v \<Longrightarrow> P x"
  proof -
    fix x assume "x \<in> set v"
    then have "x \<in> set (takeWhile P (v @ b @ p))" by (simp only: tw)
    then show "P x" by (rule set_takeWhileD [THEN conjunct2])
  qed
  then have "takeWhile P (v @ b @ p) = v @ takeWhile P (b @ p)"
    by (rule takeWhile_append2)
  with tw have "takeWhile P (b @ p) = []" by simp
  then have tb: "takeWhile P b = []" by (rule takeWhile_Nil_prefix)
  have "takeWhile P (v @ b) = v @ takeWhile P b" using all by (rule takeWhile_append2)
  with tb have t: "takeWhile P (v @ b) = v" by simp
  have "dropWhile P (v @ b) = dropWhile P b" using all by (rule dropWhile_append2)
  moreover have "takeWhile P b @ dropWhile P b = b" by (rule takeWhile_dropWhile_id)
  ultimately have d: "dropWhile P (v @ b) = b" using tb by simp
  from t d ne show "re_plus P (v @ b) = Some (v, b)" by (simp add: re_plus_def)
qed

lemma re_one_prefix:
  "re_one P (s @ p) = None \<Longrightarrow> re_one P s = None"
  "re_one P (v @ b @ p) = Some (v, b @ p) \<Longrightarrow> re_one P (v @ b) = Some (v, b)"
proof -
  show "re_one P (s @ p) = None \<Longrightarrow> re_one P s = None"
    by (cases s) (auto simp: re_one_def split: if_splits)
  show "re_one P (v @ b @ p) = Some (v, b @ p) \<Longrightarrow> re_one P (v @ b) = Some (v, b)"
    by (cases v) (auto simp: re_one_def split: if_splits list.splits)
qed

lemma re_literal_prefix:
  "re_literal lit (s @ p) = None \<Longrightarrow> re_literal lit s = None"
  "re_literal lit (v @ b @ p) = Some (v, b @ p) \<Longrightarrow> re_literal lit (v @ b) = Some (v, b)"
proof -
  show "re_literal lit (s @ p) = None \<Longrightarrow> re_literal lit s = None"
  proof (rule ccontr)
    assume n: "re_literal lit (s @ p) = None" and "re_literal lit s \<noteq> None"
    then have t: "take (length lit) s = lit" by (auto simp: re_literal_def split: if_splits)
    then have "length (take (length lit) s) = length lit" by simp
    then have "length lit \<le> length s" by simp
    with t have "take (length lit) (s @ p) = lit" by simp
    with n show False by (simp add: re_literal_def)
  qed
next
  assume "re_literal lit (v @ b @ p) = Some (v, b @ p)"
  then have "v = lit" by (auto simp: re_literal_def split: if_splits)
  then show "re_literal lit (v @ b) = Some (v, b)" by (simp add: re_literal_def)
qed

lemma re_string_Some_iff:
  "re_string s = Some (v, r) \<longleftrightarrow>
     (\<exists>m. v = quote # m @ [quote] \<and> quote \<notin> set m \<and> s = v @ r)"
proof
  assume a: "re_string s = Some (v, r)"
  then obtain rr where s: "s = quote # rr"
    by (cases s) (auto simp: re_string_def split: if_splits)
  from a s obtain q where d: "dropWhile (\<lambda>d. d \<noteq> quote) rr = q # r"
    and v: "v = quote # takeWhile (\<lambda>d. d \<noteq> quote) rr @ [q]"
    by (auto simp: re_string_def split: list.splits)
  from d have "dropWhile (\<lambda>d. d \<noteq> quote) rr \<noteq> []" by simp
  then have "\<not> (hd (dropWhile (\<lambda>d. d \<noteq> quote) rr) \<noteq> quote)"
    by (rule hd_dropWhile)
  with d have q: "q = quote" by simp
  have m: "quote \<notin> set (takeWhile (\<lambda>d. d \<noteq> quote) rr)"
    using set_takeWhileD [of quote "\<lambda>d. d \<noteq> quote" rr] by blast
  have "takeWhile (\<lambda>d. d \<noteq> quote) rr @ dropWhile (\<lambda>d. d \<noteq> quote) rr = rr"
    by (rule takeWhile_dropWhile_id)
  with d s v have "s = v @ r" by simp
  with v q m show "\<exists>m. v = quote # m @ [quote] \<and> quote \<notin> set m \<and> s = v @ r" by blast
next
  assume "\<exists>m. v = quote # m @ [quote] \<and> quote \<notin> set m \<and> s = v @ r"
  then obtain m where v: "v = quote # m @ [quote]" and m: "quote \<notin> set m" and s: "s = v @ r"
    by blast
  from m have all: "\<And>x. x \<in> set m \<Longrightarrow> x \<noteq> quote" by blast
  have "dropWhile (\<lambda>d. d \<noteq> quote) (m @ quote # r) = dropWhile (\<lambda>d. d \<noteq> quote) (quote # r)"
    using all by (rule dropWhile_append2)
  then have d: "dropWhile (\<lambda>d. d \<noteq> quote) (m @ quote # r) = quote # r" by simp
  have "takeWhile (\<lambda>d. d \<noteq> quote) (m @ quote # r) = m @ takeWhile (\<lambda>d. d \<noteq> quote) (quote # r)"
    using all by (rule takeWhile_append2)
  then have t: "takeWhile (\<lambda>d. d \<noteq> quote) (m @ quote # r) = m" by simp
  from s v have "s = quote # (m @ quote # r)" by simp
  with d t v show "re_string s = Some (v, r)" by (simp add: re_string_def)
qed

lemma re_string_prefix:
  "re_string (s @ p) = None \<Longrightarrow> re_string s = None"
  "re_string (v @ b @ p) = Some (v, b @ p) \<Longrightarrow> re_string (v @ b) = Some (v, b)"
proof -
  show "re_string (s @ p) = None \<Longrightarrow> re_string s = None"
  proof (rule ccontr)
    assume n: "re_string (s @ p) = None" and "re_string s \<noteq> None"
    then obtain v r where "re_string s = Some (v, r)" by auto
    then obtain m where "v = quote # m @ [quote]" "quote \<notin> set m" "s = v @ r"
      unfolding re_string_Some_iff by blast
    then have "re_string (s @ p) = Some (v, r @ p)"
      unfolding re_string_Some_iff by simp
    with n show False by simp
  qed
next
  assume "re_string (v @ b @ p) = Some (v, b @ p)"
  then show "re_string (v @ b) = Some (v, b)"
    unfolding re_string_Some_iff by simp
qed

lemma re_compare_prefix:
  "re_compare (s @ p) = None \<Longrightarrow> re_compare s = None"
  "re_compare (v @ b @ p) = Some (v, b @ p) \<Longrightarrow> re_compare (v @ b) = Some (v, b)"
proof -
  assume a: "re_compare (s @ p) = None"
  show "re_compare s = None"
  proof (cases s)
    case Nil
    then show ?thesis by (simp add: re_compare_def)
  next
    case (Cons c r)
    with a have c: "c \<noteq> CHR ''<''" "c \<noteq> CHR ''>''"
      by (auto simp: re_compare_def split: list.splits if_splits)
    with a Cons have "re_literal ''=='' (s @ p) = None" by (simp add: re_compare_def)
    then have "re_literal ''=='' s = None" by (rule re_literal_prefix(1))
    with c Cons show ?thesis by (simp add: re_compare_def)
  qed
next
  assume a: "re_compare (v @ b @ p) = Some (v, b @ p)"
  show "re_compare (v @ b) = Some (v, b)"
  proof (cases v)
    case Nil
    with a have "length (b @ p) < length (b @ p)" by (auto dest: re_compare_shorter)
    then show ?thesis by simp
  next
    case (Cons c v')
    show ?thesis
    proof (cases "c = CHR ''<'' \<or> c = CHR ''>''")
      case True
      with a Cons show ?thesis
        by (cases v'; cases b) (auto simp: re_compare_def split: list.splits if_splits)
    next
      case False
      with a Cons have "re_literal ''=='' (v @ b @ p) = Some (v, b @ p)"
        by (simp add: re_compare_def)
      then have "re_literal ''=='' (v @ b) = Some (v, b)" by (rule re_literal_prefix(2))
      with False Cons show ?thesis by (simp add: re_compare_def)
    qed
  qed
qed

lemma re_plus_split: "re_plus P s = Some (v, r) \<Longrightarrow> s = v @ r"
  by (auto simp: re_plus_def split: if_splits)

lemma re_one_split: "re_one P s = Some (v, r) \<Longrightarrow> s = v @ r"
  by (auto simp: re_one_def split: list.splits if_splits)

lemma re_literal_split: "re_literal lit s = Some (v, r) \<Longrightarrow> s = v @ r"
proof -
  assume "re_literal lit s = Some (v, r)"
  then have "take (length lit) s = v" and "drop (length lit) s = r"
    by (auto simp: re_literal_def split: if_splits)
  with append_take_drop_id [of "length lit" s] show "s = v @ r" by simp
qed

lemma re_string_split: "re_string s = Some (v, r) \<Longrightarrow> s = v @ r"
  unfolding re_string_Some_iff by blast

lemma re_compare_split: "re_compare s = Some (v, r) \<Longrightarrow> s = v @ r"
  by (auto simp: re_compare_def split: list.splits if_splits dest: re_literal_split)

lemma cut_stable_plus: "cut_stable (re_plus P)"
  unfolding cut_stable_def
  by (intro conjI allI impI) (erule re_plus_prefix re_plus_split)+

lemma cut_stable_one: "cut_stable (re_one P)"
  unfolding cut_stable_def
  by (intro conjI allI impI) (erule re_one_prefix re_one_split)+

lemma cut_stable_literal: "cut_stable (re_literal lit)"
  unfolding cut_stable_def
  by (intro conjI allI impI) (erule re_literal_prefix re_literal_split)+

lemma cut_stable_string: "cut_stable re_string"
  unfolding cut_stable_def
  by (intro conjI allI impI) (erule re_string_prefix re_string_split)+

lemma cut_stable_compare: "cut_stable re_compare"
  unfolding cut_stable_def
  by (intro conjI allI impI) (erule re_compare_prefix re_compare_split)+

lemmas cut_stable_patterns =
  cut_stable_plus cut_stable_one cut_stable_literal cut_stable_string cut_stable_compare

lemma first_match_cut_None:
  assumes "\<forall>(k, re) \<in> set specs. cut_stable re" and "first_match specs (s @ p) = None"
  shows "first_match specs s = None"
  using assms
proof (induction specs)
  case Nil
  then show ?case by simp
next
  case (Cons a specs)
  obtain k' re where a: "a = (k', re)" by (cases a)
  from Cons.prems(1) a have st: "cut_stable re" and rest: "\<forall>(k, re) \<in> set specs. cut_stable re"
    by simp_all
  from Cons.prems(2) a have n: "re (s @ p) = None" and f: "first_match specs (s @ p) = None"
    by (simp_all split: option.splits)
  from st n have "re s = None" unfolding cut_stable_def by blast
  moreover from Cons.IH [OF rest f] have "first_match specs s = None" .
  ultimately show ?case using a by simp
qed

lemma first_match_cut_Some:
  assumes "\<forall>(k, re) \<in> set specs. cut_stable re"
    and "first_match specs (v @ b @ p) = Some (k, v, b @ p)"
  shows "first_match specs (v @ b) = Some (k, v, b)"
  using assms
proof (induction specs)
  case Nil
  then show ?case by simp
next
  case (Cons a specs)
  obtain k' re where a: "a = (k', re)" by (cases a)
  from Cons.prems(1) a have st: "cut_stable re" and rest: "\<forall>(k, re) \<in> set specs. cut_stable re"
    by simp_all
  from Cons.prems(2) a have "(re (v @ b @ p) = Some (v, b @ p) \<and> k' = k)
      \<or> (re (v @ b @ p) = None \<and> first_match specs (v @ b @ p) = Some (k, v, b @ p))"
    by (simp only: first_match_Cons_Some_iff)
  then show ?case
  proof
    assume m: "re (v @ b @ p) = Some (v, b @ p) \<and> k' = k"
    with st have "re (v @ b) = Some (v, b)" unfolding cut_stable_def by blast
    with m a show ?thesis by simp
  next
    assume n: "re (v @ b @ p) = None \<and> first_match specs (v @ b @ p) = Some (k, v, b @ p)"
    then have "re ((v @ b) @ p) = None" by simp
    with st have "re (v @ b) = None" unfolding cut_stable_def by blast
    moreover from n have "first_match specs (v @ b @ p) = Some (k, v, b @ p)" by (rule conjunct2)
    with rest have "first_match specs (v @ b) = Some (k, v, b)" by (rule Cons.IH)
    ultimately show ?thesis using a by simp
  qed
qed

lemma first_match_split:
  assumes "\<forall>(k, re) \<in> set specs. cut_stable re" and "first_match specs s = Some (k, v, r)"
  shows "s = v @ r"
  using assms
proof (induction specs)
  case Nil
  then show ?case by simp
next
  case (Cons a specs)
  obtain k' re where a: "a = (k', re)" by (cases a)
  from Cons.prems(1) a have st: "cut_stable re" and rest: "\<forall>(k, re) \<in> set specs. cut_stable re"
    by simp_all
  from Cons.prems(2) a have "(re s = Some (v, r) \<and> k' = k)
      \<or> (re s = None \<and> first_match specs s = Some (k, v, r))"
    by (simp only: first_match_Cons_Some_iff)
  then show ?case
  proof
    assume "re s = Some (v, r) \<and> k' = k"
    with st show ?thesis unfolding cut_stable_def by blast
  next
    assume "re s = None \<and> first_match specs s = Some (k, v, r)"
    then have "first_match specs s = Some (k, v, r)" by (rule conjunct2)
    with rest show ?thesis by (rule Cons.IH)
  qed
qed

lemma token_specs_cut_stable: "\<forall>(k, re) \<in> set token_specs. cut_stable re"
  by (simp add: token_specs_def cut_stable_patterns)

lemma token_regex_cut:
  "token_regex (s @ p) = None \<Longrightarrow> token_regex s = None"
  "token_regex (v @ b @ p) = Some (k, v, b @ p) \<Longrightarrow> token_regex (v @ b) = Some (k, v, b)"
  "token_regex s = Some (k, v, r) \<Longrightarrow> s = v @ r"
  unfolding token_regex_def
  by (erule first_match_cut_None [OF token_specs_cut_stable]
      first_match_cut_Some [OF token_specs_cut_stable]
      first_match_split [OF token_specs_cut_stable])+

text \<open>Every scan position of a text is an end of the text.\<close>

lemma scan_positions_suffix:
  "q \<in> set (scan_positions s) \<Longrightarrow> \<exists>b. s = b @ q"
proof (induction s rule: scan_positions.induct)
  case 1
  then show ?case by simp
next
  case (2 c cs)
  show ?case
  proof (cases "q = c # cs")
    case True
    then show ?thesis by simp
  next
    case False
    show ?thesis
    proof (cases "token_regex (c # cs)")
      case None
      with 2 False obtain b where "cs = b @ q" by auto
      then have "c # cs = (c # b) @ q" by simp
      then show ?thesis by blast
    next
      case (Some m)
      obtain k v r where m: "m = (k, v, r)" by (cases m)
      from "2.prems" False Some m have "q \<in> set (scan_positions r)" by simp
      with "2.IH"(2) [OF Some [unfolded m] refl refl] obtain b where "r = b @ q" by blast
      moreover from Some m have "c # cs = v @ r" by (simp add: token_regex_cut(3))
      ultimately have "c # cs = (v @ b) @ q" by simp
      then show ?thesis by blast
    qed
  qed
qed

text \<open>
  When the scan of a text reaches a position, the tokens of the text are the tokens of
  the text before that position, followed by the tokens of the text from it.
\<close>

lemma lex_split:
  "p \<in> set (scan_positions (b @ p)) \<Longrightarrow> lex (b @ p) = lex b @ lex p"
proof (induction "length b" arbitrary: b rule: less_induct)
  case less
  show ?case
  proof (cases b)
    case Nil
    then show ?thesis by simp
  next
    case (Cons c cs)
    have "length p \<noteq> length (c # cs @ p)" by simp
    then have ne: "p \<noteq> c # cs @ p" by (rule contrapos_nn) (erule arg_cong)
    show ?thesis
    proof (cases "token_regex (c # cs @ p)")
      case None
      then have "token_regex ((c # cs) @ p) = None" by simp
      then have n: "token_regex (c # cs) = None" by (rule token_regex_cut(1))
      from less.prems Cons None ne have "p \<in> set (scan_positions (cs @ p))" by simp
      with less.hyps [of cs] Cons have "lex (cs @ p) = lex cs @ lex p" by simp
      with None n Cons show ?thesis by simp
    next
      case (Some m)
      obtain k v r where m: "m = (k, v, r)" by (cases m)
      from less.prems Cons Some m ne have pr: "p \<in> set (scan_positions r)" by simp
      then obtain b' where r: "r = b' @ p" using scan_positions_suffix by blast
      from Some m have "c # cs @ p = v @ r" by (simp add: token_regex_cut(3))
      with r have vb: "c # cs = v @ b'" by simp
      then have "(c # cs) @ p = (v @ b') @ p" by (rule arg_cong)
      then have "c # cs @ p = v @ b' @ p" by simp
      with Some m r have "token_regex (v @ b' @ p) = Some (k, v, b' @ p)" by simp
      then have "token_regex (v @ b') = Some (k, v, b')" by (rule token_regex_cut(2))
      with vb have s: "token_regex (c # cs) = Some (k, v, b')" by simp
      then have "length b' < length b" using Cons by (auto dest: token_regex_shorter)
      with less.hyps [of b'] pr r have "lex (b' @ p) = lex b' @ lex p" by simp
      with Some m r s Cons show ?thesis by (simp split: option.splits)
    qed
  qed
qed

text \<open>Every token of the result was made from a match of the joined expression.\<close>

lemma lex_token_origin:
  "t \<in> set (lex s) \<Longrightarrow> \<exists>s' k v r. token_regex s' = Some (k, v, r) \<and> make_token k v = Some t"
proof (induction s rule: lex.induct)
  case 1
  then show ?case by simp
next
  case (2 c cs)
  show ?case
  proof (cases "token_regex (c # cs)")
    case None
    with 2 show ?thesis by simp
  next
    case (Some m)
    obtain k v r where m: "m = (k, v, r)" by (cases m)
    show ?thesis
    proof (cases "make_token k v")
      case None
      with 2 Some m show ?thesis by simp
    next
      case (Some u)
      from 2 \<open>token_regex (c # cs) = Some m\<close> m Some
      have "t = u \<or> t \<in> set (lex r)" by simp
      then show ?thesis
      proof
        assume "t = u"
        with \<open>token_regex (c # cs) = Some m\<close> m Some show ?thesis by blast
      next
        assume "t \<in> set (lex r)"
        with 2 \<open>token_regex (c # cs) = Some m\<close> m Some show ?thesis by simp
      qed
    qed
  qed
qed





text \<open>
  The \<^verbatim>\<open>COMPARE\<close> alternative is reached only where \<^verbatim>\<open>=\<close> does not match, so its second
  branch \<^verbatim>\<open>==\<close> never gives the match.
\<close>

lemma token_regex_compare:
  assumes "token_regex s = Some (K_COMPARE, v, r)"
  shows "v \<noteq> ''==''"
proof -
  from assms have asg: "re_literal ''='' s = None" and v: "re_compare s = Some (v, r)"
    unfolding token_regex_def token_specs_def
    by (simp_all add: first_match_Cons_Some_iff del: first_match.simps(2))
  show ?thesis
  proof (cases s)
    case Nil
    with v show ?thesis by (simp add: re_compare_def)
  next
    case (Cons c cs)
    from asg Cons have "c \<noteq> CHR ''=''" by (auto simp: re_literal_def)
    with v Cons show ?thesis
      by (auto simp: re_compare_def re_literal_def split: if_splits list.splits)
  qed
qed


lemma make_token_COMPARE:
  "make_token k v = Some (COMPARE x) \<Longrightarrow> k = K_COMPARE \<and> x = v"
  by (cases k) auto

lemma lex_no_double_equals: "COMPARE ''=='' \<notin> set (lex s)"
proof
  assume "COMPARE ''=='' \<in> set (lex s)"
  then obtain s' k v r where "token_regex s' = Some (k, v, r)"
    and "make_token k v = Some (COMPARE ''=='')"
    by (blast dest: lex_token_origin)
  then show False
    by (auto dest!: make_token_COMPARE token_regex_compare)
qed



section \<open>Properties of the interpreter and the runner\<close>

text \<open>
  The message of every exception that the parser or the interpreter raises is a single
  line: \<^verbatim>\<open>repr\<close> escapes the newlines of a token's text.
\<close>

lemma one_line_append [simp]: "one_line (s @ t) \<longleftrightarrow> one_line s \<and> one_line t"
  by (auto simp: one_line_def)

lemma one_line_Cons [simp]: "one_line (c # s) \<longleftrightarrow> c \<noteq> newline \<and> one_line s"
  by (auto simp: one_line_def)

lemma one_line_Nil [simp]: "one_line []"
  by (simp add: one_line_def)

lemma digit_char_one_line: "n < 16 \<Longrightarrow> digit_char n \<noteq> newline"
proof -
  assume "n < 16"
  then have "digit_char n \<in> set ''0123456789abcdef''"
    unfolding digit_char_def by (intro nth_mem) simp
  then show ?thesis by (auto simp: newline_def)
qed

lemma str_of_nat_one_line: "one_line (str_of_nat n)"
proof (induction n rule: str_of_nat.induct)
  case (1 n)
  show ?case
  proof (cases "n < 10")
    case True
    then show ?thesis by (subst str_of_nat.simps) (simp add: digit_char_one_line)
  next
    case False
    have "n mod 10 < 16" by (rule less_trans [of _ 10]) simp_all
    with False 1 show ?thesis
      by (subst str_of_nat.simps) (simp add: digit_char_one_line)
  qed
qed

lemma str_of_int_one_line: "one_line (str_of_int i)"
  by (simp add: str_of_int_def str_of_nat_one_line newline_def)

lemma repr_char_one_line: "q \<noteq> newline \<Longrightarrow> one_line (repr_char q c)"
proof -
  assume q: "q \<noteq> newline"
  have "(of_char c :: nat) mod 256 < 256" by (rule mod_less_divisor) simp
  then have "(of_char c :: nat) < 256" by simp
  then have "(of_char c :: nat) div 16 < 16" "(of_char c :: nat) mod 16 < 16"
    by (simp_all add: less_mult_imp_div_less)
  then have hex: "digit_char (of_char c div 16) \<noteq> newline" "digit_char (of_char c mod 16) \<noteq> newline"
    by (simp_all add: digit_char_one_line)
  have pr: "printable c \<Longrightarrow> c \<noteq> newline"
    by (auto simp: printable_def newline_def Let_def)
  from q hex pr show ?thesis
    by (auto simp: repr_char_def backslash_def newline_def)
qed

lemma py_repr_one_line: "one_line (py_repr s)"
proof -
  have "\<And>q. q \<noteq> newline \<Longrightarrow> one_line (concat (map (repr_char q) s))"
    by (induction s) (simp_all add: repr_char_one_line)
  then show ?thesis
    by (simp add: py_repr_def Let_def quote_def apostrophe_def newline_def)
qed

lemma kind_name_one_line: "one_line (kind_name k)"
  by (cases k) (simp_all add: newline_def)

lemma repr_token_one_line: "one_line (repr_token t)"
  by (cases t) (simp_all add: repr_token_def py_repr_one_line str_of_int_one_line newline_def)

lemma index_error_one_line: "one_line (message index_error)"
  by (simp add: index_error_def newline_def)

lemma consume_error_one_line: "one_line (message (consume_error k ts))"
  by (cases ts)
    (simp_all add: consume_error_def index_error_one_line kind_name_one_line newline_def)

lemma invalid_statement_one_line: "one_line (message (invalid_statement ts))"
  by (cases ts)
    (simp_all add: invalid_statement_def index_error_one_line repr_token_one_line newline_def)

lemma consume_one_line: "consume k ts = Inl e \<Longrightarrow> one_line (message e)"
  by (auto simp: consume_def consume_error_one_line split: list.splits if_splits)

lemma parse_expr_one_line:
  "parse_expr ts1 = Inl e1 \<Longrightarrow> one_line (message e1)"
  "parse_compare ts2 = Inl e2 \<Longrightarrow> one_line (message e2)"
  "parse_add_sub ts3 = Inl e3 \<Longrightarrow> one_line (message e3)"
  "add_sub_loop n4 ts4 = Inl e4 \<Longrightarrow> one_line (message e4)"
  "parse_mul_div ts5 = Inl e5 \<Longrightarrow> one_line (message e5)"
  "mul_div_loop n6 ts6 = Inl e6 \<Longrightarrow> one_line (message e6)"
  "parse_primary ts7 = Inl e7 \<Longrightarrow> one_line (message e7)"
proof (induct ts1 and ts2 and ts3 and n4 ts4 and ts5 and n6 ts6 and ts7
    arbitrary: e1 and e2 and e3 and e4 and e5 and e6 and e7
    rule: parse_expr_parse_compare_parse_add_sub_add_sub_loop_parse_mul_div_mul_div_loop_parse_primary.induct)
  case (1 ts)
  then show ?case by (simp add: parse_expr.simps)
next
  case (2 ts)
  from "2.prems" [unfolded parse_compare.simps [of ts]] "2.hyps" show ?case
    by (fastforce split: sum.splits list.splits token.splits prod.splits)
next
  case (3 ts)
  from "3.prems" [unfolded parse_add_sub.simps [of ts]] "3.hyps" show ?case
    by (fastforce split: sum.splits prod.splits)
next
  case (4 node ts)
  from "4.prems" [unfolded add_sub_loop.simps [of node ts]] "4.hyps" show ?case
    by (fastforce split: sum.splits list.splits token.splits prod.splits if_splits)
next
  case (5 ts)
  from "5.prems" [unfolded parse_mul_div.simps [of ts]] "5.hyps" show ?case
    by (fastforce split: sum.splits prod.splits)
next
  case (6 node ts)
  from "6.prems" [unfolded mul_div_loop.simps [of node ts]] "6.hyps" show ?case
    by (fastforce split: sum.splits list.splits token.splits prod.splits if_splits)
next
  case (7 ts)
  from "7.prems" [unfolded parse_primary.simps [of ts]] "7.hyps" show ?case
    by (fastforce simp: index_error_one_line repr_token_one_line newline_def
        split: sum.splits list.splits token.splits prod.splits dest: consume_one_line)
qed

lemma parse_print_one_line: "parse_print ts = Inl e \<Longrightarrow> one_line (message e)"
  by (fastforce simp: parse_print_def split: sum.splits prod.splits
      dest: consume_one_line parse_expr_one_line(1))

lemma parse_assignment_one_line: "parse_assignment ts = Inl e \<Longrightarrow> one_line (message e)"
  by (fastforce simp: parse_assignment_def consume_error_one_line
      split: sum.splits prod.splits list.splits token.splits
      dest: consume_one_line parse_expr_one_line(1))

lemma parse_stmt_one_line:
  "parse_stmt ts1 = Inl e1 \<Longrightarrow> one_line (message e1)"
  "parse_if ts2 = Inl e2 \<Longrightarrow> one_line (message e2)"
  "if_body_loop b3 ts3 = Inl e3 \<Longrightarrow> one_line (message e3)"
proof (induct ts1 and ts2 and b3 ts3 arbitrary: e1 and e2 and e3
    rule: parse_stmt_parse_if_if_body_loop.induct)
  case (1 ts)
  from "1.prems" [unfolded parse_stmt.simps [of ts]] "1.hyps" show ?case
    by (auto simp: invalid_statement_one_line split: if_splits
        dest: parse_print_one_line parse_assignment_one_line)
next
  case (2 ts)
  from "2.prems" [unfolded parse_if.simps [of ts]] "2.hyps" show ?case
    by (fastforce split: sum.splits prod.splits dest: consume_one_line parse_expr_one_line(1))
next
  case (3 body ts)
  from "3.prems" [unfolded if_body_loop.simps [of body ts]] "3.hyps" show ?case
    by (fastforce split: sum.splits prod.splits if_splits)
qed

lemma parse_loop_one_line: "parse_loop stmts ts = Inl e \<Longrightarrow> one_line (message e)"
proof (induction stmts ts rule: parse_loop.induct)
  case (1 stmts ts)
  from "1.prems" [unfolded parse_loop.simps [of stmts ts]] "1.IH" show ?case
    by (fastforce split: sum.splits prod.splits if_splits dest: parse_stmt_one_line(1))
qed

lemma parse_one_line: "parse ts = Inl e \<Longrightarrow> one_line (message e)"
  unfolding parse_def by (rule parse_loop_one_line)

lemma type_name_one_line: "one_line (type_name v)"
  by (cases v) (simp_all add: newline_def)

lemma squoted_one_line: "one_line s \<Longrightarrow> one_line (squoted s)"
  by (simp add: squoted_def apostrophe_def newline_def)

lemma unsupported_one_line: "one_line op \<Longrightarrow> one_line (message (unsupported op l r))"
  by (simp add: unsupported_def squoted_one_line type_name_one_line newline_def)

lemma cannot_multiply_one_line: "one_line (message (cannot_multiply v))"
  by (simp add: cannot_multiply_def squoted_one_line type_name_one_line newline_def
      apostrophe_def)

lemma cannot_concatenate_one_line: "one_line (message (cannot_concatenate v))"
  by (simp add: cannot_concatenate_def type_name_one_line newline_def quote_def)

lemma not_supported_one_line: "one_line op \<Longrightarrow> one_line (message (not_supported op l r))"
  by (simp add: not_supported_def squoted_one_line type_name_one_line newline_def)

lemma py_order_one_line:
  "one_line op \<Longrightarrow> py_order op f g l r = Inl e \<Longrightarrow> one_line (message e)"
  by (auto simp: py_order_def not_supported_one_line split: option.splits pyval.splits)

lemma py_concat_one_line: "py_concat s t = Inl e \<Longrightarrow> one_line (message e)"
  by (auto simp: py_concat_def newline_def split: if_splits)

lemma py_repeat_one_line: "py_repeat s n = Inl e \<Longrightarrow> one_line (message e)"
  by (auto simp: py_repeat_def squoted_def apostrophe_def newline_def split: if_splits)

lemma operators_one_line:
  "py_add l r = Inl e \<Longrightarrow> one_line (message e)"
  "py_sub l r = Inl e \<Longrightarrow> one_line (message e)"
  "py_mul l r = Inl e \<Longrightarrow> one_line (message e)"
  "py_floordiv l r = Inl e \<Longrightarrow> one_line (message e)"
  "py_gt l r = Inl e \<Longrightarrow> one_line (message e)"
  "py_lt l r = Inl e \<Longrightarrow> one_line (message e)"
  "py_eq l r = Inl e \<Longrightarrow> one_line (message e)"
  "py_ge l r = Inl e \<Longrightarrow> one_line (message e)"
  "py_le l r = Inl e \<Longrightarrow> one_line (message e)"
proof -
  show "py_add l r = Inl e \<Longrightarrow> one_line (message e)"
    by (auto simp: py_add_def cannot_concatenate_one_line unsupported_one_line newline_def
        split: option.splits pyval.splits dest: py_concat_one_line)
  show "py_sub l r = Inl e \<Longrightarrow> one_line (message e)"
    by (auto simp: py_sub_def unsupported_one_line newline_def split: option.splits)
  show "py_mul l r = Inl e \<Longrightarrow> one_line (message e)"
    by (auto simp: py_mul_def cannot_multiply_one_line unsupported_one_line newline_def
        split: option.splits pyval.splits dest: py_repeat_one_line)
  show "py_floordiv l r = Inl e \<Longrightarrow> one_line (message e)"
    by (auto simp: py_floordiv_def unsupported_one_line newline_def
        split: option.splits if_splits)
  show "py_gt l r = Inl e \<Longrightarrow> one_line (message e)"
    unfolding py_gt_def by (erule py_order_one_line [rotated]) (simp add: newline_def)
  show "py_lt l r = Inl e \<Longrightarrow> one_line (message e)"
    unfolding py_lt_def by (erule py_order_one_line [rotated]) (simp add: newline_def)
  show "py_eq l r = Inl e \<Longrightarrow> one_line (message e)"
    by (auto simp: py_eq_def split: option.splits pyval.splits)
  show "py_ge l r = Inl e \<Longrightarrow> one_line (message e)"
    unfolding py_ge_def by (erule py_order_one_line [rotated]) (simp add: newline_def)
  show "py_le l r = Inl e \<Longrightarrow> one_line (message e)"
    unfolding py_le_def by (erule py_order_one_line [rotated]) (simp add: newline_def)
qed

lemma eval_expr_one_line: "eval_expr self ex = Inl e \<Longrightarrow> one_line (message e)"
proof (induction ex arbitrary: e)
  case (BinOp op left right)
  then show ?case
    by (auto split: sum.splits if_splits dest: operators_one_line)
qed simp_all

lemma eval_stmt_one_line:
  "eval_stmt s self = (Some e, self') \<Longrightarrow> one_line (message e)"
  "eval_stmts ss self = (Some e, self') \<Longrightarrow> one_line (message e)"
proof (induction s self and ss self arbitrary: e self' and e self'
    rule: eval_stmt_eval_stmts.induct)
  case (1 ex self)
  then show ?case
    by (auto simp del: eval_expr.simps split: sum.splits dest: eval_expr_one_line)
next
  case (2 cond body self)
  then show ?case
    by (auto simp del: eval_expr.simps split: sum.splits if_splits dest: eval_expr_one_line)
next
  case (3 var_name ex self)
  then show ?case
    by (auto simp del: eval_expr.simps split: sum.splits dest: eval_expr_one_line)
next
  case (4 self)
  then show ?case by simp
next
  case (5 s ss self)
  then show ?case
    by (auto split: prod.splits option.splits)
qed

lemma Interpreter_run_one_line:
  "Interpreter_run self ast = (Inl e, self') \<Longrightarrow> one_line (message e)"
  by (auto simp: Interpreter_run_def split: prod.splits option.splits
      dest: eval_stmt_one_line(2))

lemma run_ezlang_raised:
  assumes "parse (lex code) = Inr ast"
    and "eval_stmts ast (Interpreter_init\<lparr>output_buffer := []\<rparr>) = (Some e, self')"
  shows "run_ezlang code = ''Error: '' @ message e"
  using assms by (simp add: run_ezlang_def Interpreter_run_def error_line_def)

lemma evaluates_raises:
  "evaluates self ex sub \<Longrightarrow> eval_expr self sub = Inl e \<Longrightarrow> eval_expr self ex = Inl e"
proof (induction ex)
  case (BinOp op left right)
  from BinOp.prems(1)
  consider "sub = BinOp op left right" | "evaluates self left sub"
    | v where "eval_expr self left = Inr v" "evaluates self right sub"
    by (auto split: sum.splits)
  then show ?case
  proof cases
    case 1
    with BinOp.prems(2) show ?thesis by simp
  next
    case 2
    with BinOp show ?thesis by simp
  next
    case 3
    with BinOp show ?thesis by simp
  qed
qed simp_all

lemma stmt_evaluates_raises:
  "stmt_evaluates s self state sub \<Longrightarrow> eval_expr state sub = Inl e
     \<Longrightarrow> \<exists>self'. eval_stmt s self = (Some e, self')"
  "stmts_evaluate ss self state sub \<Longrightarrow> eval_expr state sub = Inl e
     \<Longrightarrow> \<exists>self'. eval_stmts ss self = (Some e, self')"
proof (induction s self and ss self rule: eval_stmt_eval_stmts.induct)
  case (1 ex self)
  then have "eval_expr self ex = Inl e" by (auto dest: evaluates_raises)
  then show ?case by simp
next
  case (2 cond body self)
  from "2.prems"(1)
  consider "state = self" "evaluates self cond sub"
    | c where "eval_expr self cond = Inr c" "truthy c" "stmts_evaluate body self state sub"
    by (auto split: sum.splits)
  then show ?case
  proof cases
    case 1
    with "2.prems"(2) have "eval_expr self cond = Inl e" by (auto dest: evaluates_raises)
    then show ?thesis by simp
  next
    case 2
    with "2.IH" "2.prems"(2) show ?thesis by simp
  qed
next
  case (3 var_name ex self)
  then have "eval_expr self ex = Inl e" by (auto dest: evaluates_raises)
  then show ?case by simp
next
  case (4 self)
  then show ?case by simp
next
  case (5 s ss self)
  from "5.prems"(1)
  consider "stmt_evaluates s self state sub"
    | self1 where "eval_stmt s self = (None, self1)" "stmts_evaluate ss self1 state sub"
    by (auto split: prod.splits option.splits)
  then show ?case
  proof cases
    case 1
    with "5.IH"(1) "5.prems"(2) obtain self' where "eval_stmt s self = (Some e, self')"
      by blast
    then show ?thesis by simp
  next
    case 2
    from 2(1) have "(None, self1) = eval_stmt s self" by simp
    from "5.IH"(2) [OF this refl 2(2) "5.prems"(2)]
    obtain self' where "eval_stmts ss self1 = (Some e, self')" ..
    with 2 show ?thesis by simp
  qed
qed

lemma run_evaluates_raises:
  assumes "parse (lex code) = Inr ast"
    and "stmts_evaluate ast (Interpreter_init\<lparr>output_buffer := []\<rparr>) state sub"
    and "eval_expr state sub = Inl e"
  shows "run_ezlang code = ''Error: '' @ message e"
proof -
  from assms(2,3) obtain self' where
    "eval_stmts ast (Interpreter_init\<lparr>output_buffer := []\<rparr>) = (Some e, self')"
    by (blast dest: stmt_evaluates_raises(2))
  with assms(1) show ?thesis by (rule run_ezlang_raised)
qed

lemma join_lines_concat:
  "join_lines (x # xs) = x @ concat (map (\<lambda>y. CHR 0x0A # y) xs)"
  by (induction xs arbitrary: x) (simp_all add: newline_def)

lemma run_ezlang_heap_result: "fst (run_ezlang_heap code h) = run_ezlang code"
  by (auto simp: run_ezlang_heap_def run_ezlang_def Interpreter_new_def Interpreter_run_at_def
      split: sum.splits prod.splits)

lemma run_ezlang_heap_keeps: "take (length h) (snd (run_ezlang_heap code h)) = h"
  by (auto simp: run_ezlang_heap_def Interpreter_new_def Interpreter_run_at_def
      split: sum.splits prod.splits)

text \<open>Example runs, used below.\<close>

lemma print_then_fail_parse:
  "parse (lex ''print 1\<newline>print 1 / 0'')
     = Inr [Print (IntLit 1), Print (BinOp ''/'' (IntLit 1) (IntLit 0))]"
  by code_simp

lemma print_then_fail_run:
  "Interpreter_run Interpreter_init [Print (IntLit 1), Print (BinOp ''/'' (IntLit 1) (IntLit 0))]
     = (Inl (ZeroDivisionError ''integer division or modulo by zero''),
        \<lparr>vars = Map.empty, output_buffer = [''1'']\<rparr>)"
  by (simp add: Interpreter_run_def Interpreter_init_def py_floordiv_def str_of_int_def
      str_of_nat.simps digit_char_def)

lemma two_prints_parse:
  "parse (lex ''print 1\<newline>print 2'') = Inr [Print (IntLit 1), Print (IntLit 2)]"
  by code_simp

lemma nested_division_parse:
  "parse (lex ''x = 0\<newline>if 1 {\<newline>print 1 + 2 / x\<newline>}'')
     = Inr [Assign ''x'' (IntLit 0),
            If (IntLit 1) [Print (BinOp ''+'' (IntLit 1) (BinOp ''/'' (IntLit 2) (Var ''x'')))]]"
  by code_simp

lemma nested_division_evaluated:
  "stmts_evaluate
     [Assign ''x'' (IntLit 0),
      If (IntLit 1) [Print (BinOp ''+'' (IntLit 1) (BinOp ''/'' (IntLit 2) (Var ''x'')))]]
     (Interpreter_init\<lparr>output_buffer := []\<rparr>)
     \<lparr>vars = [''x'' \<mapsto> Integer 0], output_buffer = []\<rparr>
     (BinOp ''/'' (IntLit 2) (Var ''x''))"
  by (simp add: Interpreter_init_def)

lemma counter_example_parse:
  "parse (lex ''x = x + 1\<newline>print x'')
     = Inr [Assign ''x'' (BinOp ''+'' (Var ''x'') (IntLit 1)), Print (Var ''x'')]"
  by code_simp

lemma counter_heap_first:
  "run_ezlang_heap ''x = x + 1\<newline>print x'' []
     = (''1'', [\<lparr>vars = [''x'' \<mapsto> Integer 1], output_buffer = [''1'']\<rparr>])"
  unfolding run_ezlang_heap_def counter_example_parse
  by (simp add: Interpreter_new_def Interpreter_run_at_def Interpreter_run_def
      Interpreter_init_def py_add_def str_of_int_def str_of_nat.simps digit_char_def)

section \<open>The claims\<close>

text \<open>
  C1. The claim: the text \<^verbatim>\<open>==\<close> outside a string literal is one \<^verbatim>\<open>COMPARE\<close> token with
  value \<^verbatim>\<open>==\<close>, and \<^verbatim>\<open>a == b\<close> parses as a comparison and evaluates to the equality of
  the operands. In the code the pattern \<^verbatim>\<open>=\<close> of \<^verbatim>\<open>ASSIGN\<close> stands before the pattern of
  \<^verbatim>\<open>COMPARE\<close> in the joined expression, so \<^verbatim>\<open>==\<close> is two \<^verbatim>\<open>ASSIGN\<close> tokens: the lexer
  never produces a \<^verbatim>\<open>COMPARE\<close> token with value \<^verbatim>\<open>==\<close>, and the program
  \<^verbatim>\<open>print 1 == 1\<close> is a syntax error.
\<close>

theorem double_equals_lexes_as_two_assigns:
  "lex ''a == b'' = [IDENTIFIER ''a'', ASSIGN, ASSIGN, IDENTIFIER ''b'']
   \<and> run_ezlang ''print 1 == 1''
       = ''Error: Invalid statement at token ('' @ squoted ''ASSIGN'' @ '', '' @ squoted ''='' @ '')''
   \<and> COMPARE ''=='' \<notin> set (lex code)"
proof -
  have a: "lex ''a == b'' = [IDENTIFIER ''a'', ASSIGN, ASSIGN, IDENTIFIER ''b'']"
    by code_simp
  have b: "run_ezlang ''print 1 == 1''
      = ''Error: Invalid statement at token ('' @ squoted ''ASSIGN'' @ '', '' @ squoted ''='' @ '')''"
    by code_simp
  show ?thesis
    by (intro conjI) (rule a, rule b, rule lex_no_double_equals)
qed

text \<open>
  C2, as claimed: lexing stops at the first character that matches none of the
  patterns, and no token comes from that character or from a later position. This
  fails: in \<^verbatim>\<open>1 @ 2\<close> nothing matches at \<^verbatim>\<open>@\<close>, and the token of \<^verbatim>\<open>2\<close> is still produced.
\<close>

theorem lexing_stops_counterexample:
  "token_regex ''@ 2'' = None
   \<and> lex ''1 @ 2'' = [NUMBER 1, NUMBER 2]
   \<and> lex ''1 @ 2'' \<noteq> lex ''1 ''"
  by code_simp

text \<open>
  C2, amended: a character at which none of the patterns matches is skipped and
  scanning goes on at the next character: when the scan of a text reaches such a
  character, the tokens of the text are the tokens of the text before the character
  followed by the tokens of the text after it. The lexer is a total function to token
  lists: it raises nothing.
\<close>

theorem unmatched_character_is_skipped:
  assumes "c # cs \<in> set (scan_positions (before @ c # cs))"
    and "token_regex (c # cs) = None"
  shows "lex (before @ c # cs) = lex before @ lex cs \<and> lex (c # cs) = lex cs"
proof -
  from assms(1) have "lex (before @ c # cs) = lex before @ lex (c # cs)" by (rule lex_split)
  with assms(2) show ?thesis by simp
qed

text \<open>
  In \<^verbatim>\<open>1 @ 2\<close> the scan reaches \<^verbatim>\<open>@\<close>, where nothing matches: the tokens are the token of
  \<^verbatim>\<open>1\<close>, from the text before it, and the token of \<^verbatim>\<open>2\<close>, from the text after it.
\<close>

theorem unmatched_character_is_skipped_witness:
  "''@ 2'' \<in> set (scan_positions (''1 '' @ ''@ 2''))
   \<and> token_regex ''@ 2'' = None
   \<and> lex ''1 '' = [NUMBER 1]
   \<and> lex '' 2'' = [NUMBER 2]
   \<and> lex ''1 @ 2'' = [NUMBER 1, NUMBER 2]"
proof -
  have p: "''@ 2'' \<in> set (scan_positions (''1 '' @ ''@ 2''))" by code_simp
  have h: "token_regex ''@ 2'' = None" by code_simp
  have u: "lex ''1 '' = [NUMBER 1]" by code_simp
  have v: "lex '' 2'' = [NUMBER 2]" by code_simp
  from unmatched_character_is_skipped [OF p h]
  have "lex (''1 '' @ ''@ 2'') = lex ''1 '' @ lex '' 2''" by (rule conjunct1)
  then have "lex ''1 @ 2'' = [NUMBER 1, NUMBER 2]" unfolding u v by simp
  with p h u v show ?thesis by (simp only: simp_thms)
qed




text \<open>
  C4: for every input text the entry point returns a text. When parsing and the run
  raise nothing, it is the output buffer of the run joined with newlines: the empty
  text for an empty buffer, otherwise the first entry followed by every further entry
  with a newline character before it. When parsing or the run raises, it is
  \<^verbatim>\<open>Error: \<close> followed by the message of the exception. The lexer, the parser and the
  interpreter are total functions of the model, each \<^theory_text>\<open>function\<close> with its
  termination proof.
\<close>

theorem run_ezlang_returns_output_or_error_line:
  "(\<exists>ast self. parse (lex code) = Inr ast
       \<and> eval_stmts ast (Interpreter_init\<lparr>output_buffer := []\<rparr>) = (None, self)
       \<and> run_ezlang code =
           (case output_buffer self of
              [] \<Rightarrow> []
            | x # xs \<Rightarrow> x @ concat (map (\<lambda>y. CHR 0x0A # y) xs)))
   \<or> (\<exists>e. (parse (lex code) = Inl e
             \<or> (\<exists>ast self. parse (lex code) = Inr ast
                   \<and> eval_stmts ast (Interpreter_init\<lparr>output_buffer := []\<rparr>) = (Some e, self)))
          \<and> run_ezlang code = ''Error: '' @ message e)"
proof (cases "parse (lex code)")
  case (Inl e)
  then show ?thesis by (auto simp: run_ezlang_def error_line_def)
next
  case (Inr ast)
  obtain res self where r: "eval_stmts ast (Interpreter_init\<lparr>output_buffer := []\<rparr>) = (res, self)"
    by (cases "eval_stmts ast (Interpreter_init\<lparr>output_buffer := []\<rparr>)")
  show ?thesis
  proof (cases res)
    case (Some e)
    with Inr r have "run_ezlang code = ''Error: '' @ message e"
      by (simp add: run_ezlang_def Interpreter_run_def error_line_def)
    with Inr r Some show ?thesis by blast
  next
    case None
    with Inr r have "run_ezlang code = join_lines (output_buffer self)"
      by (simp add: run_ezlang_def Interpreter_run_def)
    then have "run_ezlang code =
        (case output_buffer self of
           [] \<Rightarrow> []
         | x # xs \<Rightarrow> x @ concat (map (\<lambda>y. CHR 0x0A # y) xs))"
      by (cases "output_buffer self") (simp_all add: join_lines_concat)
    with Inr r None show ?thesis by blast
  qed
qed

text \<open>
  Two \<^verbatim>\<open>print\<close> statements give the two texts with one newline character between
  them, and a run that raises after a \<^verbatim>\<open>print\<close> gives the error line.
\<close>

theorem run_ezlang_returns_output_or_error_line_witness:
  "run_ezlang ''print 1\<newline>print 2'' = ''1\<newline>2''
   \<and> run_ezlang ''print 1\<newline>print 2'' = [CHR ''1'', CHR 0x0A, CHR ''2'']
   \<and> run_ezlang ''print 1\<newline>print 1 / 0'' = ''Error: integer division or modulo by zero''"
proof -
  from run_ezlang_returns_output_or_error_line [of "''print 1\<newline>print 2''",
      unfolded two_prints_parse]
  have a: "run_ezlang ''print 1\<newline>print 2'' = [CHR ''1'', CHR 0x0A, CHR ''2'']"
    by (auto simp: Interpreter_init_def str_of_int_def str_of_nat.simps digit_char_def)
  from run_ezlang_returns_output_or_error_line [of "''print 1\<newline>print 1 / 0''",
      unfolded print_then_fail_parse]
  have b: "run_ezlang ''print 1\<newline>print 1 / 0'' = ''Error: integer division or modulo by zero''"
    by (auto simp: Interpreter_init_def py_floordiv_def str_of_int_def str_of_nat.simps
        digit_char_def)
  from a b show ?thesis by simp
qed

text \<open>
  C5: when parsing or running fails with an exception, the entry point returns exactly
  \<^verbatim>\<open>Error: \<close> and the message of that exception, a single line, whatever the output
  buffer of the interpreter object holds at that moment.
\<close>

theorem failed_run_returns_only_error_line:
  assumes "parse (lex code) = Inl e
     \<or> (\<exists>ast. parse (lex code) = Inr ast \<and> Interpreter_run Interpreter_init ast = (Inl e, self))"
  shows "run_ezlang code = ''Error: '' @ message e \<and> newline \<notin> set (run_ezlang code)"
proof -
  from assms have r: "run_ezlang code = ''Error: '' @ message e"
    by (auto simp: run_ezlang_def error_line_def)
  from assms have "one_line (message e)"
    by (auto dest: parse_one_line Interpreter_run_one_line)
  then have "one_line (''Error: '' @ message e)"
    by (simp add: newline_def)
  with r show ?thesis by (simp add: one_line_def)
qed

theorem failed_run_returns_only_error_line_witness:
  "parse (lex ''print 1\<newline>print 1 / 0'')
     = Inr [Print (IntLit 1), Print (BinOp ''/'' (IntLit 1) (IntLit 0))]
   \<and> Interpreter_run Interpreter_init [Print (IntLit 1), Print (BinOp ''/'' (IntLit 1) (IntLit 0))]
     = (Inl (ZeroDivisionError ''integer division or modulo by zero''),
        \<lparr>vars = Map.empty, output_buffer = [''1'']\<rparr>)
   \<and> run_ezlang ''print 1\<newline>print 1 / 0'' = ''Error: integer division or modulo by zero''"
proof -
  have "run_ezlang ''print 1\<newline>print 1 / 0''
      = ''Error: '' @ message (ZeroDivisionError ''integer division or modulo by zero'')"
    by (rule failed_run_returns_only_error_line [THEN conjunct1])
      (use print_then_fail_parse print_then_fail_run in blast)
  with print_then_fail_parse print_then_fail_run show ?thesis by simp
qed

text \<open>
  C6, as claimed: division of Integers is floor division, and the program
  \<^verbatim>\<open>a = -7\<close>, \<^verbatim>\<open>b = 2\<close>, \<^verbatim>\<open>print a / b\<close> prints \<^verbatim>\<open>-4\<close>. The program fails to
  parse: the grammar has no unary minus, and \<^verbatim>\<open>-7\<close> is the tokens \<^verbatim>\<open>OP -\<close> and
  \<^verbatim>\<open>NUMBER 7\<close>.
\<close>

theorem negative_literal_counterexample:
  "run_ezlang ''a = -7\<newline>b = 2\<newline>print a / b''
     = ''Error: Unexpected token: ('' @ squoted ''OP'' @ '', '' @ squoted ''-'' @ '')''
   \<and> run_ezlang ''a = -7; b = 2; print a / b''
     = ''Error: Unexpected token: ('' @ squoted ''OP'' @ '', '' @ squoted ''-'' @ '')''
   \<and> run_ezlang ''a = -7\<newline>b = 2\<newline>print a / b'' \<noteq> ''-4''"
  by code_simp

text \<open>
  C6, amended: for Integer operands \<open>a\<close> and \<open>b\<close> with \<open>b\<close> not zero, \<^verbatim>\<open>a / b\<close> is the
  floor of the exact quotient; the program \<^verbatim>\<open>a = 0 - 7\<close>, \<^verbatim>\<open>b = 2\<close>,
  \<^verbatim>\<open>print a / b\<close> prints \<^verbatim>\<open>-4\<close>, with its statements on separate lines or with
  semicolons between them (the lexer skips a semicolon).
\<close>

theorem division_is_floor_division:
  assumes "eval_expr self l = Inr (Integer a)" and "eval_expr self r = Inr (Integer b)"
    and "b \<noteq> 0"
  shows "eval_expr self (BinOp ''/'' l r) = Inr (Integer \<lfloor>rat_of_int a / rat_of_int b\<rfloor>)
     \<and> run_ezlang ''a = 0 - 7\<newline>b = 2\<newline>print a / b'' = ''-4''
     \<and> run_ezlang ''a = 0 - 7; b = 2; print a / b'' = ''-4''"
proof -
  have "run_ezlang ''a = 0 - 7\<newline>b = 2\<newline>print a / b'' = ''-4''"
    by code_simp
  moreover have "run_ezlang ''a = 0 - 7; b = 2; print a / b'' = ''-4''"
    by code_simp
  moreover have "\<lfloor>rat_of_int a / rat_of_int b\<rfloor> = a div b"
    by (rule floor_divide_of_int_eq)
  ultimately show ?thesis
    using assms by (simp add: py_floordiv_def)
qed

theorem division_is_floor_division_witness:
  "eval_expr Interpreter_init (IntLit (- 7)) = Inr (Integer (- 7))
   \<and> eval_expr Interpreter_init (IntLit 2) = Inr (Integer 2)
   \<and> (2 :: int) \<noteq> 0
   \<and> eval_expr Interpreter_init (BinOp ''/'' (IntLit (- 7)) (IntLit 2)) = Inr (Integer (- 4))"
proof -
  have h1: "eval_expr Interpreter_init (IntLit (- 7)) = Inr (Integer (- 7))" by simp
  have h2: "eval_expr Interpreter_init (IntLit 2) = Inr (Integer 2)" by simp
  have h3: "(2 :: int) \<noteq> 0" by simp
  have "\<lfloor>rat_of_int (- 7) / rat_of_int 2\<rfloor> = (- 4 :: int)"
    by (simp add: floor_divide_of_int_eq [of "- 7" 2, simplified])
  with division_is_floor_division [OF h1 h2 h3] h1 h2 h3 show ?thesis by simp
qed

text \<open>
  C7: a division whose right operand evaluates to Integer 0 raises; with an Integer on
  the left the exception is \<^verbatim>\<open>ZeroDivisionError\<close>. The exception passes through every
  expression whose evaluation evaluates the division, and through the statement that
  evaluates it, which leaves the interpreter as it was; a run that evaluates such a
  division, in a statement of the program or of the body of an \<^verbatim>\<open>if\<close>, returns
  \<^verbatim>\<open>Error: \<close> and the message.
\<close>

theorem division_by_zero_is_reported:
  assumes "eval_expr state r = Inr (Integer 0)"
  shows "(\<exists>e. eval_expr state (BinOp ''/'' l r) = Inl e
            \<and> (eval_expr state l = Inr (Integer a) \<longrightarrow>
                  e = ZeroDivisionError ''integer division or modulo by zero'')
            \<and> (evaluates state ex (BinOp ''/'' l r) \<longrightarrow> eval_expr state ex = Inl e)
            \<and> eval_stmt (Print (BinOp ''/'' l r)) state = (Some e, state)
            \<and> eval_stmt (Assign x (BinOp ''/'' l r)) state = (Some e, state)
            \<and> eval_stmt (If (BinOp ''/'' l r) body) state = (Some e, state)
            \<and> (parse (lex code) = Inr ast
                 \<and> stmts_evaluate ast (Interpreter_init\<lparr>output_buffer := []\<rparr>) state
                      (BinOp ''/'' l r)
                 \<longrightarrow> run_ezlang code = ''Error: '' @ message e))
     \<and> run_ezlang ''a = 1\<newline>b = 0\<newline>print a / b''
          = ''Error: integer division or modulo by zero''"
proof -
  have run: "run_ezlang ''a = 1\<newline>b = 0\<newline>print a / b''
      = ''Error: integer division or modulo by zero''"
    by code_simp
  have "\<exists>e. eval_expr state (BinOp ''/'' l r) = Inl e"
  proof (cases "eval_expr state l")
    case (Inl e)
    then show ?thesis by simp
  next
    case (Inr lv)
    with assms show ?thesis
      by (cases lv) (simp_all add: py_floordiv_def)
  qed
  then obtain e where e: "eval_expr state (BinOp ''/'' l r) = Inl e" ..
  have zero: "eval_expr state l = Inr (Integer a) \<longrightarrow>
      e = ZeroDivisionError ''integer division or modulo by zero''"
    using assms e by (auto simp: py_floordiv_def)
  have inner: "evaluates state ex (BinOp ''/'' l r) \<longrightarrow> eval_expr state ex = Inl e"
    using e by (blast intro: evaluates_raises)
  from e have st: "eval_stmt (Print (BinOp ''/'' l r)) state = (Some e, state)"
    "eval_stmt (Assign x (BinOp ''/'' l r)) state = (Some e, state)"
    "eval_stmt (If (BinOp ''/'' l r) body) state = (Some e, state)"
    by (simp_all del: eval_expr.simps)
  have prog: "parse (lex code) = Inr ast
      \<and> stmts_evaluate ast (Interpreter_init\<lparr>output_buffer := []\<rparr>) state (BinOp ''/'' l r)
      \<longrightarrow> run_ezlang code = ''Error: '' @ message e"
    using e by (blast intro: run_evaluates_raises)
  from e zero inner st prog run show ?thesis by blast
qed

text \<open>
  The division \<^verbatim>\<open>2 / x\<close> is the right operand of a sum, in a \<^verbatim>\<open>print\<close> in the body of an
  \<^verbatim>\<open>if\<close>, and is evaluated when \<open>x\<close> is bound to 0.
\<close>

theorem division_by_zero_is_reported_witness:
  "eval_expr \<lparr>vars = [''x'' \<mapsto> Integer 0], output_buffer = []\<rparr> (Var ''x'') = Inr (Integer 0)
   \<and> eval_expr \<lparr>vars = [''x'' \<mapsto> Integer 0], output_buffer = []\<rparr>
        (BinOp ''+'' (IntLit 1) (BinOp ''/'' (IntLit 2) (Var ''x'')))
     = Inl (ZeroDivisionError ''integer division or modulo by zero'')
   \<and> run_ezlang ''x = 0\<newline>if 1 {\<newline>print 1 + 2 / x\<newline>}''
     = ''Error: integer division or modulo by zero''"
proof -
  let ?s = "\<lparr>vars = [''x'' \<mapsto> Integer 0], output_buffer = []\<rparr>"
  let ?d = "BinOp ''/'' (IntLit 2) (Var ''x'')"
  have h: "eval_expr ?s (Var ''x'') = Inr (Integer 0)" by simp
  have l: "eval_expr ?s (IntLit 2) = Inr (Integer 2)" by simp
  have ev: "evaluates ?s (BinOp ''+'' (IntLit 1) ?d) ?d" by simp
  from division_by_zero_is_reported [OF h, of "IntLit 2" 2 "BinOp ''+'' (IntLit 1) ?d" "''x''" "[]"
      "''x = 0\<newline>if 1 {\<newline>print 1 + 2 / x\<newline>}''"
      "[Assign ''x'' (IntLit 0), If (IntLit 1) [Print (BinOp ''+'' (IntLit 1) ?d)]]"]
    l ev nested_division_parse nested_division_evaluated
  have "eval_expr ?s (BinOp ''+'' (IntLit 1) ?d)
        = Inl (ZeroDivisionError ''integer division or modulo by zero'')
      \<and> run_ezlang ''x = 0\<newline>if 1 {\<newline>print 1 + 2 / x\<newline>}''
        = ''Error: integer division or modulo by zero''"
    by (elim conjE exE) (simp del: eval_expr.simps evaluates.simps stmts_evaluate.simps)
  with h show ?thesis by (simp only: simp_thms)
qed

text \<open>
  C8: reading a variable that the environment does not bind yields Integer 0, and the
  program \<^verbatim>\<open>print y\<close> prints \<^verbatim>\<open>0\<close>.
\<close>

theorem unbound_variable_reads_zero:
  assumes "vars self var_name = None"
  shows "eval_expr self (Var var_name) = Inr (Integer 0) \<and> run_ezlang ''print y'' = ''0''"
proof -
  have "run_ezlang ''print y'' = ''0''" by code_simp
  with assms show ?thesis by simp
qed

theorem unbound_variable_reads_zero_witness:
  "vars Interpreter_init ''y'' = None
   \<and> eval_expr Interpreter_init (Var ''y'') = Inr (Integer 0)
   \<and> run_ezlang ''print y'' = ''0''"
proof -
  have h: "vars Interpreter_init ''y'' = None" by (simp add: Interpreter_init_def)
  from unbound_variable_reads_zero [OF h] h show ?thesis by blast
qed

text \<open>
  C9: two successive calls of the entry point on the same text return the same text,
  whatever objects earlier calls have left in the store. Each call allocates its
  interpreter object at a new address, with empty variables and an empty output
  buffer, and changes no object that was in the store before; its result is that of
  \<open>run_ezlang\<close>, a function of the text alone.
\<close>

theorem successive_runs_agree:
  "fst (run_ezlang_heap P (snd (run_ezlang_heap P h))) = fst (run_ezlang_heap P h)
   \<and> fst (run_ezlang_heap P h) = fst (run_ezlang_heap P h')
   \<and> take (length h) (snd (run_ezlang_heap P h)) = h
   \<and> fst (Interpreter_new h) = length h
   \<and> snd (Interpreter_new h) ! fst (Interpreter_new h)
       = \<lparr>vars = Map.empty, output_buffer = []\<rparr>
   \<and> fst (run_ezlang_heap P h) = run_ezlang P"
  by (simp add: run_ezlang_heap_result run_ezlang_heap_keeps Interpreter_new_def
      Interpreter_init_def)

text \<open>
  The program \<^verbatim>\<open>x = x + 1\<close>, \<^verbatim>\<open>print x\<close> prints \<^verbatim>\<open>1\<close> in the first call, which leaves in
  the store an object with \<open>x\<close> bound to 1, and prints \<^verbatim>\<open>1\<close> again in a call on that
  store; a run on the object that the first call left would print \<^verbatim>\<open>2\<close>.
\<close>

theorem successive_runs_agree_witness:
  "run_ezlang_heap ''x = x + 1\<newline>print x'' []
     = (''1'', [\<lparr>vars = [''x'' \<mapsto> Integer 1], output_buffer = [''1'']\<rparr>])
   \<and> fst (run_ezlang_heap ''x = x + 1\<newline>print x''
            [\<lparr>vars = [''x'' \<mapsto> Integer 1], output_buffer = [''1'']\<rparr>]) = ''1''
   \<and> fst (Interpreter_run_at 0
            [Assign ''x'' (BinOp ''+'' (Var ''x'') (IntLit 1)), Print (Var ''x'')]
            [\<lparr>vars = [''x'' \<mapsto> Integer 1], output_buffer = [''1'']\<rparr>]) = Inr ''2''"
proof -
  let ?h = "[\<lparr>vars = [''x'' \<mapsto> Integer 1], output_buffer = [''1'']\<rparr>]"
  from successive_runs_agree [of "''x = x + 1\<newline>print x''" "[]" "[]"]
  have "fst (run_ezlang_heap ''x = x + 1\<newline>print x''
               (snd (run_ezlang_heap ''x = x + 1\<newline>print x'' [])))
      = fst (run_ezlang_heap ''x = x + 1\<newline>print x'' [])"
    by (rule conjunct1)
  then have second: "fst (run_ezlang_heap ''x = x + 1\<newline>print x'' ?h) = ''1''"
    by (simp only: counter_heap_first fst_conv snd_conv)
  have shared: "fst (Interpreter_run_at 0
            [Assign ''x'' (BinOp ''+'' (Var ''x'') (IntLit 1)), Print (Var ''x'')] ?h) = Inr ''2''"
    by (simp add: Interpreter_run_at_def Interpreter_run_def py_add_def str_of_int_def
        str_of_nat.simps digit_char_def)
  from counter_heap_first second shared show ?thesis by (intro conjI)
qed




end
